theory Spec2Isabelle
  imports Complex_Main
begin

section \<open>Data model\<close>

text \<open>
  The program (\<^verbatim>\<open>app.py\<close>) reads three CSV files into pandas data frames, renames
  their column labels, tags every row with its election year, concatenates the three
  frames and renders a filtered view of the result.

  A data frame is modelled by its list of column labels (a list, since pandas keeps the
  order of the labels and allows a label to occur more than once) and its list of rows,
  every row holding one cell per column, in the order of the labels. A cell is missing
  (pandas' NaN), a string, or a number. A number is finite, and then it is the rational
  number that the integer or float denotes, or it is one of the two infinities of
  float64, which a CSV file can hold as \<^verbatim>\<open>inf\<close> and \<^verbatim>\<open>-inf\<close>. Arithmetic on finite
  numbers is exact here: the rounding and the overflow of float64 arithmetic are not
  modelled.
\<close>

datatype cell = Null | Str string | Num rat | PosInf | NegInf

record frame =
  columns :: "string list"
  rows :: "cell list list"

text \<open>The exceptions that the modelled lines can raise.\<close>

datatype error =
  InvalidIndexError | TypeError | AttributeError | KeyError | ValueError | OverflowError

text \<open>Every row of a frame has one cell per column.\<close>

definition rectangular :: "frame \<Rightarrow> bool" where
  "rectangular f = list_all (\<lambda>r. length r = length (columns f)) (rows f)"

text \<open>
  What \<^verbatim>\<open>pd.read_csv\<close> returns: a rectangular frame whose labels are pairwise different
  (\<^verbatim>\<open>read_csv\<close> renames a repeated header \<^verbatim>\<open>x\<close> to \<^verbatim>\<open>x.1\<close>, \<^verbatim>\<open>x.2\<close>, ...).
\<close>

definition csv_frame :: "frame \<Rightarrow> bool" where
  "csv_frame f = (rectangular f \<and> distinct (columns f))"

section \<open>Label cleaning: \<^verbatim>\<open>normalize\<close>\<close>

text \<open>
  \<^verbatim>\<open>df.columns.str.strip().str.lower().str.replace(" ", "_").str.replace(".", "_")\<close>

  A character of a label is a code point from 0 to 255 (\<^typ>\<open>char\<close>), so labels are the
  strings of Latin-1. \<open>is_space\<close> lists the code points in that range that Python's
  \<^verbatim>\<open>str.strip()\<close> removes: the ASCII whitespace 9 to 13, 28 to 31 and 32, the next-line
  control 133 and the no-break space 160. \<open>lower_char\<close> is \<^verbatim>\<open>str.lower()\<close> on one
  character: the capital letters are the code points 65 to 90 and 192 to 222 without
  the multiplication sign 215, and the small letter of each lies 32 above it. A
  one-character pattern is replaced literally by \<^verbatim>\<open>str.replace\<close>, so both replacements
  act character by character.
\<close>

definition is_space :: "char \<Rightarrow> bool" where
  "is_space c = (of_char c \<in> set [9, 10, 11, 12, 13, 28, 29, 30, 31, 32, 133, 160 :: nat])"

definition strip :: "string \<Rightarrow> string" where
  "strip s = rev (dropWhile is_space (rev (dropWhile is_space s)))"

definition is_upper :: "char \<Rightarrow> bool" where
  "is_upper c =
     (let n = (of_char c :: nat) in (65 \<le> n \<and> n \<le> 90) \<or> (192 \<le> n \<and> n \<le> 222 \<and> n \<noteq> 215))"

definition lower_char :: "char \<Rightarrow> char" where
  "lower_char c = (if is_upper c then char_of (of_char c + 32 :: nat) else c)"

definition lower :: "string \<Rightarrow> string" where
  "lower s = map lower_char s"

definition replace_char :: "char \<Rightarrow> char \<Rightarrow> string \<Rightarrow> string" where
  "replace_char old new s = map (\<lambda>c. if c = old then new else c) s"

definition clean_label :: "string \<Rightarrow> string" where
  "clean_label s =
     replace_char (CHR ''.'') (CHR ''_'') (replace_char (CHR '' '') (CHR ''_'') (lower (strip s)))"

definition normalize :: "frame \<Rightarrow> frame" where
  "normalize df = df\<lparr>columns := map clean_label (columns df)\<rparr>"

text \<open>What cleaning does to one character that survives the trimming.\<close>

definition clean_char :: "char \<Rightarrow> char" where
  "clean_char c =
     (let l = lower_char c in if l = CHR '' '' \<or> l = CHR ''.'' then CHR ''_'' else l)"

section \<open>Semantic mapping: \<^verbatim>\<open>map_semantic\<close>\<close>

text \<open>
  The loop of \<^verbatim>\<open>map_semantic\<close> fills the dictionary \<^verbatim>\<open>rename\<close>, one label after the
  other, and \<^verbatim>\<open>df.rename(columns=rename)\<close> replaces every label that is a key of the
  dictionary by its value, position by position, and keeps every other label.
\<close>

fun rename_loop :: "string list \<Rightarrow> (string \<rightharpoonup> string) \<Rightarrow> (string \<rightharpoonup> string)" where
  "rename_loop [] rename = rename"
| "rename_loop (c # cs) rename =
     rename_loop cs
       (if c \<in> set [''state'', ''state_name''] then rename(c \<mapsto> ''state'')
        else if c \<in> set [''party'', ''party_name''] then rename(c \<mapsto> ''party'')
        else if c \<in> set [''votes'', ''total_votes'', ''valid_votes''] then rename(c \<mapsto> ''votes'')
        else if c \<in> set [''margin'', ''vote_margin'', ''winning_margin''] then rename(c \<mapsto> ''margin'')
        else rename)"

definition df_rename :: "frame \<Rightarrow> (string \<rightharpoonup> string) \<Rightarrow> frame" where
  "df_rename df rename =
     df\<lparr>columns := map (\<lambda>c. case rename c of Some n \<Rightarrow> n | None \<Rightarrow> c) (columns df)\<rparr>"

definition map_semantic :: "frame \<Rightarrow> frame" where
  "map_semantic df = df_rename df (rename_loop (columns df) Map.empty)"

text \<open>The synonym table read off the branches of the loop: the labels that are renamed,
  and the name a label ends with.\<close>

definition synonyms :: "string list" where
  "synonyms = [''state'', ''state_name'', ''party'', ''party_name'', ''votes'', ''total_votes'',
     ''valid_votes'', ''margin'', ''vote_margin'', ''winning_margin'']"

definition semantic_name :: "string \<Rightarrow> string" where
  "semantic_name c =
     (if c \<in> set [''state'', ''state_name''] then ''state''
      else if c \<in> set [''party'', ''party_name''] then ''party''
      else if c \<in> set [''votes'', ''total_votes'', ''valid_votes''] then ''votes''
      else if c \<in> set [''margin'', ''vote_margin'', ''winning_margin''] then ''margin''
      else c)"

section \<open>Field presence: \<^verbatim>\<open>has\<close>\<close>

definition has :: "frame \<Rightarrow> string \<Rightarrow> bool" where
  "has df col = (col \<in> set (columns df))"

section \<open>Cells, columns and numeric coercion\<close>

text \<open>
  \<open>cell_at cols r l\<close> is the cell of row \<open>r\<close> under the first column labelled \<open>l\<close>,
  and missing when no column has that label.
\<close>

definition cell_at :: "string list \<Rightarrow> cell list \<Rightarrow> string \<Rightarrow> cell" where
  "cell_at cols r l = (case map_of (zip cols r) l of Some c \<Rightarrow> c | None \<Rightarrow> Null)"

text \<open>
  The values of a numeric series: a finite number or an infinity. \<open>cell_of\<close> is the
  cell that holds such a value.
\<close>

datatype number = Finite rat | PlusInfinity | MinusInfinity

definition cell_of :: "number \<Rightarrow> cell" where
  "cell_of n = (case n of Finite q \<Rightarrow> Num q | PlusInfinity \<Rightarrow> PosInf | MinusInfinity \<Rightarrow> NegInf)"

text \<open>
  \<^verbatim>\<open>pd.to_numeric(..., errors="coerce")\<close> on one cell: a number stays, a missing cell
  stays missing, a string becomes the number it denotes, or missing when it denotes
  none. Which strings denote a number, and which number, is decided inside pandas; the
  model takes that reader as the parameter \<open>numeric\<close>, so that nothing proved below
  depends on it.
\<close>

definition to_numeric :: "(string \<Rightarrow> number option) \<Rightarrow> cell \<Rightarrow> cell" where
  "to_numeric numeric c =
     (case c of
        Str s \<Rightarrow> (case numeric s of Some n \<Rightarrow> cell_of n | None \<Rightarrow> Null)
      | _ \<Rightarrow> c)"

text \<open>
  A reader for the examples. It reads the signed decimal integer literals as the
  integers they denote and \<^verbatim>\<open>inf\<close>, \<^verbatim>\<open>+inf\<close>, \<^verbatim>\<open>-inf\<close> as the infinities, as
  \<^verbatim>\<open>pd.to_numeric\<close> does, and no other string: of the strings that \<^verbatim>\<open>pd.to_numeric\<close>
  reads it covers those that the examples hold.
\<close>

definition digit_of :: "char \<Rightarrow> nat option" where
  "digit_of c =
     (let n = (of_char c :: nat) in if 48 \<le> n \<and> n \<le> 57 then Some (n - 48) else None)"

fun digits_value :: "string \<Rightarrow> nat \<Rightarrow> nat option" where
  "digits_value [] acc = Some acc"
| "digits_value (c # cs) acc =
     (case digit_of c of None \<Rightarrow> None | Some d \<Rightarrow> digits_value cs (10 * acc + d))"

definition parse_int :: "string \<Rightarrow> int option" where
  "parse_int s =
     (case s of
        [] \<Rightarrow> None
      | c # cs \<Rightarrow>
          if c = CHR ''-'' then
            (if cs = [] then None else map_option (\<lambda>n. - int n) (digits_value cs 0))
          else if c = CHR ''+'' then
            (if cs = [] then None else map_option int (digits_value cs 0))
          else map_option int (digits_value s 0))"

definition parse_number :: "string \<Rightarrow> number option" where
  "parse_number s =
     (if s = ''inf'' \<or> s = ''+inf'' then Some PlusInfinity
      else if s = ''-inf'' then Some MinusInfinity
      else map_option (\<lambda>n. Finite (of_int n)) (parse_int s))"

section \<open>Loading: \<^verbatim>\<open>load_data\<close>\<close>

text \<open>
  Lines 64 to 66, on the 2024 frame as read:
  \<^verbatim>\<open>
  if "Margin" in d24.columns:
      d24["Margin"] = pd.to_numeric(d24["Margin"], errors="coerce")
      d24 = d24.dropna(subset=["Margin"])
  \<close>
  Were the label \<^verbatim>\<open>Margin\<close> repeated, \<^verbatim>\<open>d24["Margin"]\<close> would be a frame and
  \<^verbatim>\<open>pd.to_numeric\<close> would raise \<^verbatim>\<open>TypeError\<close>; a frame read by \<^verbatim>\<open>read_csv\<close> never
  repeats a label.
\<close>

definition coerce_margin :: "(string \<Rightarrow> number option) \<Rightarrow> string list \<Rightarrow> cell list \<Rightarrow> cell list" where
  "coerce_margin numeric cols r =
     map2 (\<lambda>c x. if c = ''Margin'' then to_numeric numeric x else x) cols r"

definition sanitize_margin :: "(string \<Rightarrow> number option) \<Rightarrow> frame \<Rightarrow> error + frame" where
  "sanitize_margin numeric d24 =
     (if ''Margin'' \<in> set (columns d24) then
        (if 1 < count_list (columns d24) ''Margin'' then Inl TypeError
         else Inr (d24\<lparr>rows :=
                filter (\<lambda>r. cell_at (columns d24) r ''Margin'' \<noteq> Null)
                  (map (coerce_margin numeric (columns d24)) (rows d24))\<rparr>))
      else Inr d24)"

text \<open>
  \<^verbatim>\<open>d["year"] = y\<close>: a new last column when no column is labelled \<^verbatim>\<open>year\<close>; otherwise
  every column labelled \<^verbatim>\<open>year\<close> is overwritten, in place.
\<close>

definition set_year :: "frame \<Rightarrow> rat \<Rightarrow> frame" where
  "set_year df y =
     (if ''year'' \<in> set (columns df) then
        df\<lparr>rows := map (\<lambda>r. map2 (\<lambda>c x. if c = ''year'' then Num y else x) (columns df) r) (rows df)\<rparr>
      else
        df\<lparr>columns := columns df @ [''year''], rows := map (\<lambda>r. r @ [Num y]) (rows df)\<rparr>)"

text \<open>A frame after cleaning, mapping and year tagging (lines 59 and 72, 60 and 73,
  69 and 74).\<close>

definition canonical :: "frame \<Rightarrow> rat \<Rightarrow> frame" where
  "canonical d y = set_year (map_semantic (normalize d)) y"

text \<open>
  \<^verbatim>\<open>pd.concat(frames, ignore_index=True, sort=False)\<close>. When all frames carry the same
  list of labels, that list is kept and the rows are stacked as they are. Otherwise
  the labels are united in the order of their first appearance and each frame is
  re-indexed to the union, a label the frame lacks giving missing cells; re-indexing a
  frame that repeats a label raises \<^verbatim>\<open>InvalidIndexError\<close>.
\<close>

definition unique :: "string list \<Rightarrow> string list" where
  "unique ls = rev (remdups (rev ls))"

definition union_indexes :: "string list list \<Rightarrow> string list" where
  "union_indexes indexes =
     (case indexes of
        [] \<Rightarrow> []
      | i # others \<Rightarrow>
          (let result = unique i;
               diff = filter (\<lambda>l. l \<notin> set result) (concat others)
           in result @ unique diff))"

definition reindex :: "frame \<Rightarrow> string list \<Rightarrow> cell list list" where
  "reindex df new_labels = map (\<lambda>r. map (cell_at (columns df) r) new_labels) (rows df)"

definition concat_frames :: "frame list \<Rightarrow> error + frame" where
  "concat_frames dfs =
     (case dfs of
        [] \<Rightarrow> Inl ValueError
      | d # ds \<Rightarrow>
          if list_all (\<lambda>e. columns e = columns d) ds then
            Inr \<lparr>columns = columns d, rows = concat (map rows dfs)\<rparr>
          else if list_ex (\<lambda>e. \<not> distinct (columns e)) dfs then Inl InvalidIndexError
          else
            (let new_labels = union_indexes (map columns dfs)
             in Inr \<lparr>columns = new_labels, rows = concat (map (\<lambda>e. reindex e new_labels) dfs)\<rparr>))"

definition load_data :: "(string \<Rightarrow> number option) \<Rightarrow> frame \<Rightarrow> frame \<Rightarrow> frame \<Rightarrow> error + frame" where
  "load_data numeric csv14 csv19 csv24 =
     (let d14 = map_semantic (normalize csv14);
          d19 = map_semantic (normalize csv19)
      in case sanitize_margin numeric csv24 of
           Inl e \<Rightarrow> Inl e
         | Inr d24 \<Rightarrow>
             (let d24 = map_semantic (normalize d24);
                  d14 = set_year d14 2014;
                  d19 = set_year d19 2019;
                  d24 = set_year d24 2024
              in concat_frames [d14, d19, d24]))"

section \<open>The filtered view and its aggregates\<close>

text \<open>
  \<^verbatim>\<open>a == b\<close> on cells: a missing cell equals nothing, not even a missing cell.
\<close>

definition cell_eq :: "cell \<Rightarrow> cell \<Rightarrow> bool" where
  "cell_eq a b = (a \<noteq> Null \<and> b \<noteq> Null \<and> a = b)"

text \<open>\<^verbatim>\<open>df[df[l] == v]\<close>, for a label \<open>l\<close> that one column carries: the rows are
  filtered, the labels stay.\<close>

definition select_eq :: "frame \<Rightarrow> string \<Rightarrow> cell \<Rightarrow> frame" where
  "select_eq df l v = df\<lparr>rows := filter (\<lambda>r. cell_eq (cell_at (columns df) r l) v) (rows df)\<rparr>"

text \<open>
  The options of a select box are \<^verbatim>\<open>sorted(df[l].dropna().unique())\<close>. When several
  columns carry \<open>l\<close>, \<^verbatim>\<open>df[l]\<close> is a frame, which has no \<^verbatim>\<open>unique\<close>:
  \<^verbatim>\<open>AttributeError\<close>. When the column holds both strings and numbers, \<^verbatim>\<open>sorted\<close>
  raises \<^verbatim>\<open>TypeError\<close>.
\<close>

definition is_str :: "cell \<Rightarrow> bool" where
  "is_str c = (case c of Str s \<Rightarrow> True | _ \<Rightarrow> False)"

definition is_num :: "cell \<Rightarrow> bool" where
  "is_num c = (case c of Null \<Rightarrow> False | Str s \<Rightarrow> False | _ \<Rightarrow> True)"

definition series :: "frame \<Rightarrow> string \<Rightarrow> cell list" where
  "series df l = map (\<lambda>r. cell_at (columns df) r l) (rows df)"

definition options_error :: "frame \<Rightarrow> string \<Rightarrow> error option" where
  "options_error df l =
     (if l \<notin> set (columns df) then Some KeyError
      else if 1 < count_list (columns df) l then Some AttributeError
      else if list_ex is_str (series df l) \<and> list_ex is_num (series df l) then Some TypeError
      else None)"

text \<open>
  Lines 92 to 100 (state) and 103 to 111 (party): the filter of one select box, whose
  chosen option is \<open>choice\<close>.
\<close>

definition sidebar_filter :: "frame \<Rightarrow> string \<Rightarrow> cell \<Rightarrow> error + frame" where
  "sidebar_filter filtered l choice =
     (if has filtered l then
        (case options_error filtered l of
           Some e \<Rightarrow> Inl e
         | None \<Rightarrow> if choice \<noteq> Str ''All'' then Inr (select_eq filtered l choice) else Inr filtered)
      else Inr filtered)"

text \<open>Lines 84 to 111: the year, state and party select boxes, in the order of the
  script.\<close>

definition filtered_view :: "frame \<Rightarrow> cell \<Rightarrow> cell \<Rightarrow> cell \<Rightarrow> error + frame" where
  "filtered_view df year state party =
     (case options_error df ''year'' of
        Some e \<Rightarrow> Inl e
      | None \<Rightarrow>
          (case sidebar_filter (select_eq df ''year'' year) ''state'' state of
             Inl e \<Rightarrow> Inl e
           | Inr filtered \<Rightarrow> sidebar_filter filtered ''party'' party))"

text \<open>
  \<^verbatim>\<open>df[l]\<close>: \<^verbatim>\<open>KeyError\<close> when no column is labelled \<open>l\<close>, the series of the column
  when one is, and the frame of all the columns labelled \<open>l\<close> when there are several.
\<close>

datatype selection = Series "cell list" | Frame "cell list list"

definition getitem :: "frame \<Rightarrow> string \<Rightarrow> error + selection" where
  "getitem df l =
     (if l \<notin> set (columns df) then Inl KeyError
      else if 1 < count_list (columns df) l then
        Inr (Frame (map (\<lambda>r. map snd (filter (\<lambda>(c, x). c = l) (zip (columns df) r))) (rows df)))
      else Inr (Series (series df l)))"

text \<open>
  Lines 127 to 147: the average of a numeric field.
  \<^verbatim>\<open>
  if has(filtered, "votes"):
      votes_numeric = pd.to_numeric(filtered["votes"], errors="coerce")
      avg_votes = votes_numeric.dropna().mean()
      if pd.notna(avg_votes):
          c3.metric("Avg Votes", int(avg_votes))
      else:
          c3.metric("Avg Votes", "N/A")
  else:
      c3.metric("Avg Votes", "N/A")
  \<close>
  \<^verbatim>\<open>pd.to_numeric\<close> raises \<^verbatim>\<open>TypeError\<close> on a frame. The mean of a series is its sum
  divided by its length: NaN (here \<open>None\<close>) for the empty series and for a series that
  holds both infinities, an infinity for a series that holds one of them, and a finite
  number otherwise. \<^verbatim>\<open>pd.notna\<close> rejects NaN only. \<^verbatim>\<open>int\<close> cuts a finite number towards
  zero and raises \<^verbatim>\<open>OverflowError\<close> on an infinity.
\<close>

datatype metric = NA | Value int

definition dropna :: "cell list \<Rightarrow> cell list" where
  "dropna cs = filter (\<lambda>c. c \<noteq> Null) cs"

definition numbers :: "cell list \<Rightarrow> number list" where
  "numbers cs =
     concat (map (\<lambda>c. case c of
                   Num q \<Rightarrow> [Finite q]
                 | PosInf \<Rightarrow> [PlusInfinity]
                 | NegInf \<Rightarrow> [MinusInfinity]
                 | _ \<Rightarrow> []) cs)"

definition finite_part :: "number \<Rightarrow> rat" where
  "finite_part n = (case n of Finite q \<Rightarrow> q | _ \<Rightarrow> 0)"

definition mean :: "number list \<Rightarrow> number option" where
  "mean ns =
     (if ns = [] then None
      else if PlusInfinity \<in> set ns \<and> MinusInfinity \<in> set ns then None
      else if PlusInfinity \<in> set ns then Some PlusInfinity
      else if MinusInfinity \<in> set ns then Some MinusInfinity
      else Some (Finite (sum_list (map finite_part ns) / of_nat (length ns))))"

definition int_of :: "number \<Rightarrow> error + int" where
  "int_of n =
     (case n of
        Finite q \<Rightarrow> Inr (if 0 \<le> q then \<lfloor>q\<rfloor> else \<lceil>q\<rceil>)
      | _ \<Rightarrow> Inl OverflowError)"

definition avg_metric :: "(string \<Rightarrow> number option) \<Rightarrow> frame \<Rightarrow> string \<Rightarrow> error + metric" where
  "avg_metric numeric filtered l =
     (if has filtered l then
        (case getitem filtered l of
           Inl e \<Rightarrow> Inl e
         | Inr (Frame fs) \<Rightarrow> Inl TypeError
         | Inr (Series cs) \<Rightarrow>
             (let votes_numeric = map (to_numeric numeric) cs;
                  avg_votes = mean (numbers (dropna votes_numeric))
              in case avg_votes of
                   None \<Rightarrow> Inr NA
                 | Some avg \<Rightarrow>
                     (case int_of avg of Inl e \<Rightarrow> Inl e | Inr n \<Rightarrow> Inr (Value n))))
      else Inr NA)"

section \<open>Auxiliary notions\<close>

text \<open>
  How the rows \<open>B\<close> that a frame \<open>t\<close> contributes to a concatenation with the labels
  \<open>N\<close> arise: either the labels are those of \<open>t\<close> and the rows are taken as they
  are, or the labels of \<open>t\<close> are pairwise different and its rows are re-indexed.
\<close>

definition block_of :: "frame \<Rightarrow> string list \<Rightarrow> cell list list \<Rightarrow> bool" where
  "block_of t N B =
     ((N = columns t \<and> B = rows t) \<or>
      (distinct (columns t) \<and> set (columns t) \<subseteq> set N \<and> B = reindex t N))"

text \<open>The rows of the 2024 file that lines 64 to 66 keep: all of them when no column
  is labelled \<^verbatim>\<open>Margin\<close>, otherwise those whose \<^verbatim>\<open>Margin\<close> cell is a number or a string
  that denotes one.\<close>

definition kept :: "(string \<Rightarrow> number option) \<Rightarrow> frame \<Rightarrow> cell list list" where
  "kept numeric d24 =
     (if ''Margin'' \<in> set (columns d24)
      then filter (\<lambda>r. to_numeric numeric (cell_at (columns d24) r ''Margin'') \<noteq> Null) (rows d24)
      else rows d24)"

section \<open>Example inputs\<close>

text \<open>
  Three small files with the label sets of the scenario of the specification: 2014
  with \<^verbatim>\<open>State, Party, Votes\<close>, 2019 with \<^verbatim>\<open>state_name, party_name, total_votes\<close>,
  2024 with \<^verbatim>\<open>State, Party, Margin\<close>; and the frame \<^verbatim>\<open>load_data\<close> returns on them.
\<close>

definition scen14 :: frame where
  "scen14 = \<lparr>columns = [''State'', ''Party'', ''Votes''],
     rows = [[Str ''Goa'', Str ''INC'', Num 100], [Str ''Goa'', Str ''BJP'', Str ''n/a'']]\<rparr>"

definition scen19 :: frame where
  "scen19 = \<lparr>columns = [''state_name'', ''party_name'', ''total_votes''],
     rows = [[Str ''Goa'', Str ''BJP'', Num 300]]\<rparr>"

definition scen24 :: frame where
  "scen24 = \<lparr>columns = [''State'', ''Party'', ''Margin''],
     rows = [[Str ''Goa'', Str ''BJP'', Str ''10000''],
             [Str ''Goa'', Str ''INC'', Str ''N/A''],
             [Str ''Kerala'', Str ''INC'', Str ''-500'']]\<rparr>"

definition scen_union :: frame where
  "scen_union = \<lparr>columns = [''state'', ''party'', ''votes'', ''year'', ''margin''],
     rows = [[Str ''Goa'', Str ''INC'', Num 100, Num 2014, Null],
             [Str ''Goa'', Str ''BJP'', Str ''n/a'', Num 2014, Null],
             [Str ''Goa'', Str ''BJP'', Num 300, Num 2019, Null],
             [Str ''Goa'', Str ''BJP'', Null, Num 2024, Num 10000],
             [Str ''Kerala'', Str ''INC'', Null, Num 2024, Num (- 500)]]\<rparr>"

text \<open>The 2024 file of the example after lines 64 to 66.\<close>

definition scen24_kept :: frame where
  "scen24_kept = \<lparr>columns = [''State'', ''Party'', ''Margin''],
     rows = [[Str ''Goa'', Str ''BJP'', Num 10000], [Str ''Kerala'', Str ''INC'', Num (- 500)]]\<rparr>"

text \<open>A 2014 file with a label outside the synonym table, and the table loaded from it
  and the 2019 and 2024 files of the example.\<close>

definition extra14 :: frame where
  "extra14 = \<lparr>columns = [''PC.Name'', ''Votes''], rows = [[Str ''Panaji'', Num 5]]\<rparr>"

definition extra_union :: frame where
  "extra_union = \<lparr>columns = [''pc_name'', ''votes'', ''year'', ''state'', ''party'', ''margin''],
     rows = [[Str ''Panaji'', Num 5, Num 2014, Null, Null, Null],
             [Null, Num 300, Num 2019, Str ''Goa'', Str ''BJP'', Null],
             [Null, Null, Num 2024, Str ''Goa'', Str ''BJP'', Num 10000],
             [Null, Null, Num 2024, Str ''Kerala'', Str ''INC'', Num (- 500)]]\<rparr>"

text \<open>A file with a column \<^verbatim>\<open>Year\<close>, and the table loaded from three such files.\<close>

definition with_year :: frame where
  "with_year = \<lparr>columns = [''Year''], rows = [[Num 1999]]\<rparr>"

definition with_year_union :: frame where
  "with_year_union = \<lparr>columns = [''year''], rows = [[Num 2014], [Num 2019], [Num 2024]]\<rparr>"

text \<open>
  The 2024 rows of the specification's example for margin sanitation, with the cells as
  text, and as \<^verbatim>\<open>read_csv\<close> delivers them (it reads \<^verbatim>\<open>N/A\<close> as a missing value and the
  column as numbers); a 2014 and 2019 file whose \<^verbatim>\<open>Margin\<close> column holds a string that
  denotes no number and a missing value; and the table loaded from them.
\<close>

definition margin_text24 :: frame where
  "margin_text24 = \<lparr>columns = [''Margin''], rows = [[Str ''10000''], [Str ''N/A''], [Str ''-500'']]\<rparr>"

definition margin_read24 :: frame where
  "margin_read24 = \<lparr>columns = [''Margin''], rows = [[Num 10000], [Null], [Num (- 500)]]\<rparr>"

definition margin_other :: frame where
  "margin_other = \<lparr>columns = [''Margin''], rows = [[Str ''n.a.''], [Null]]\<rparr>"

definition margin_union :: frame where
  "margin_union = \<lparr>columns = [''margin'', ''year''],
     rows = [[Str ''n.a.'', Num 2014], [Null, Num 2014],
             [Str ''n.a.'', Num 2019], [Null, Num 2019],
             [Num 10000, Num 2024], [Num (- 500), Num 2024]]\<rparr>"

text \<open>A 2014 file whose header holds two members of one synonym group.\<close>

definition dup14 :: frame where
  "dup14 = \<lparr>columns = [''State'', ''State Name''], rows = [[Str ''Goa'', Str ''GA'']]\<rparr>"

text \<open>A file with two labels that clean to \<^verbatim>\<open>year\<close>, and what \<^verbatim>\<open>load_data\<close> returns when
  all three files are this one.\<close>

definition year_twice :: frame where
  "year_twice = \<lparr>columns = [''Year'', ''year''], rows = [[Num 1999, Str ''x'']]\<rparr>"

definition year_twice_union :: frame where
  "year_twice_union = \<lparr>columns = [''year'', ''year''],
     rows = [[Num 2014, Num 2014], [Num 2019, Num 2019], [Num 2024, Num 2024]]\<rparr>"

text \<open>
  A 2014 file whose \<^verbatim>\<open>Votes\<close> column holds \<^verbatim>\<open>100\<close> and \<^verbatim>\<open>inf\<close>, which \<^verbatim>\<open>read_csv\<close> reads
  as the numbers 100 and infinity; one whose \<^verbatim>\<open>Votes\<close> column holds \<^verbatim>\<open>withheld\<close> and
  \<^verbatim>\<open>inf\<close>, which \<^verbatim>\<open>read_csv\<close> leaves as strings; and the tables loaded from each of them
  and the 2019 and 2024 files of the example.
\<close>

definition inf14 :: frame where
  "inf14 = \<lparr>columns = [''State'', ''Party'', ''Votes''],
     rows = [[Str ''Goa'', Str ''INC'', Num 100], [Str ''Goa'', Str ''BJP'', PosInf]]\<rparr>"

definition inf_union :: frame where
  "inf_union = \<lparr>columns = [''state'', ''party'', ''votes'', ''year'', ''margin''],
     rows = [[Str ''Goa'', Str ''INC'', Num 100, Num 2014, Null],
             [Str ''Goa'', Str ''BJP'', PosInf, Num 2014, Null],
             [Str ''Goa'', Str ''BJP'', Num 300, Num 2019, Null],
             [Str ''Goa'', Str ''BJP'', Null, Num 2024, Num 10000],
             [Str ''Kerala'', Str ''INC'', Null, Num 2024, Num (- 500)]]\<rparr>"

definition inf_text14 :: frame where
  "inf_text14 = \<lparr>columns = [''State'', ''Party'', ''Votes''],
     rows = [[Str ''Goa'', Str ''INC'', Str ''withheld''], [Str ''Goa'', Str ''BJP'', Str ''inf'']]\<rparr>"

definition inf_text_union :: frame where
  "inf_text_union = \<lparr>columns = [''state'', ''party'', ''votes'', ''year'', ''margin''],
     rows = [[Str ''Goa'', Str ''INC'', Str ''withheld'', Num 2014, Null],
             [Str ''Goa'', Str ''BJP'', Str ''inf'', Num 2014, Null],
             [Str ''Goa'', Str ''BJP'', Num 300, Num 2019, Null],
             [Str ''Goa'', Str ''BJP'', Null, Num 2024, Num 10000],
             [Str ''Kerala'', Str ''INC'', Null, Num 2024, Num (- 500)]]\<rparr>"

section \<open>Properties of label cleaning\<close>

lemma strip_decompose:
  "\<exists>pre suf. s = pre @ strip s @ suf \<and> list_all is_space pre \<and> list_all is_space suf"
proof -
  let ?t = "dropWhile is_space s"
  have a: "s = takeWhile is_space s @ ?t" by simp
  have b: "rev ?t = takeWhile is_space (rev ?t) @ dropWhile is_space (rev ?t)" by simp
  have c: "?t = strip s @ rev (takeWhile is_space (rev ?t))"
  proof -
    have "rev (takeWhile is_space (rev ?t) @ dropWhile is_space (rev ?t)) = rev (rev ?t)"
      by (simp only: takeWhile_dropWhile_id)
    then have "rev (dropWhile is_space (rev ?t)) @ rev (takeWhile is_space (rev ?t)) = ?t"
      by (simp only: rev_append rev_rev_ident)
    then show ?thesis by (simp only: strip_def)
  qed
  have d: "list_all is_space (takeWhile is_space s)"
    by (simp add: list_all_iff) (meson set_takeWhileD)
  have e: "list_all is_space (rev (takeWhile is_space (rev ?t)))"
    by (simp add: list_all_iff) (meson set_takeWhileD)
  from a c have "s = takeWhile is_space s @ strip s @ rev (takeWhile is_space (rev ?t))"
    by simp
  with d e show ?thesis by blast
qed

lemma strip_hd: "strip s \<noteq> [] \<Longrightarrow> \<not> is_space (hd (strip s))"
proof -
  assume ne: "strip s \<noteq> []"
  let ?t = "dropWhile is_space s"
  let ?u = "dropWhile is_space (rev ?t)"
  have u: "?u \<noteq> []" using ne by (simp add: strip_def)
  have "hd (strip s) = last ?u" using u by (simp add: strip_def hd_rev)
  moreover have "?t \<noteq> []" using u by (metis dropWhile.simps(1) rev.simps(1))
  then have "\<not> is_space (hd ?t)" by (rule hd_dropWhile)
  moreover have "last ?u = hd ?t"
  proof -
    have "rev ?t = takeWhile is_space (rev ?t) @ ?u" by simp
    then have "last (rev ?t) = last ?u" using u by (metis last_appendR)
    then show ?thesis using \<open>?t \<noteq> []\<close> by (simp add: last_rev)
  qed
  ultimately show ?thesis by simp
qed

lemma strip_last: "strip s \<noteq> [] \<Longrightarrow> \<not> is_space (last (strip s))"
proof -
  assume ne: "strip s \<noteq> []"
  let ?u = "dropWhile is_space (rev (dropWhile is_space s))"
  have u: "?u \<noteq> []" using ne by (simp add: strip_def)
  then have "\<not> is_space (hd ?u)" by (rule hd_dropWhile)
  moreover have "last (strip s) = hd ?u" using u by (simp add: strip_def last_rev)
  ultimately show ?thesis by simp
qed

lemma strip_fixed:
  assumes "s = [] \<or> (\<not> is_space (hd s) \<and> \<not> is_space (last s))"
  shows "strip s = s"
proof (cases s)
  case Nil
  then show ?thesis by (simp add: strip_def)
next
  case (Cons a t)
  with assms have h: "\<not> is_space (hd s)" and l: "\<not> is_space (last s)" by auto
  have 1: "dropWhile is_space s = s" using h Cons by simp
  have "rev s \<noteq> []" using Cons by simp
  moreover have "hd (rev s) = last s" using Cons by (simp add: hd_rev)
  ultimately have 2: "dropWhile is_space (rev s) = rev s"
    using l by (simp only: dropWhile_eq_self_iff) simp
  show ?thesis by (simp add: strip_def 1 2)
qed

lemma of_char_lower_char:
  "is_upper c \<Longrightarrow> (of_char (lower_char c) :: nat) = of_char c + 32"
proof -
  assume u: "is_upper c"
  then have "(of_char c :: nat) + 32 < 256"
    by (auto simp: is_upper_def Let_def)
  then have "(of_char (char_of (of_char c + 32 :: nat)) :: nat) = of_char c + 32"
    by simp
  with u show ?thesis by (simp add: lower_char_def)
qed

lemma lower_char_not_upper: "\<not> is_upper (lower_char c)"
proof (cases "is_upper c")
  case True
  from of_char_lower_char [OF True] True show ?thesis
    by (auto simp: is_upper_def Let_def)
next
  case False
  then show ?thesis by (simp add: lower_char_def)
qed

lemma lower_char_space: "is_space (lower_char c) = is_space c"
proof (cases "is_upper c")
  case True
  from of_char_lower_char [OF True] True show ?thesis
    by (auto simp: is_space_def is_upper_def Let_def)
next
  case False
  then show ?thesis by (simp add: lower_char_def)
qed

lemma lower_char_idem: "lower_char (lower_char c) = lower_char c"
  using lower_char_not_upper [of c] by (simp add: lower_char_def)

lemma lower_char_eq_space_period:
  "(lower_char c = CHR '' '') = (c = CHR '' '') \<and> (lower_char c = CHR ''.'') = (c = CHR ''.'')"
proof (cases "is_upper c")
  case True
  have "(of_char (lower_char c) :: nat) \<noteq> 32" "(of_char (lower_char c) :: nat) \<noteq> 46"
    using of_char_lower_char [OF True] True by (auto simp: is_upper_def Let_def)
  then have "lower_char c \<noteq> CHR '' ''" "lower_char c \<noteq> CHR ''.''"
    by auto
  moreover have "c \<noteq> CHR '' ''" "c \<noteq> CHR ''.''"
    using True by (auto simp: is_upper_def)
  ultimately show ?thesis by simp
next
  case False
  then show ?thesis by (simp add: lower_char_def)
qed

lemma clean_label_map: "clean_label s = map clean_char (strip s)"
  by (auto simp: clean_label_def replace_char_def lower_def clean_char_def Let_def)

lemma clean_char_space: "\<not> is_space c \<Longrightarrow> \<not> is_space (clean_char c)"
  using lower_char_space [of c]
  by (auto simp: clean_char_def Let_def is_space_def)

lemma lower_char_underscore: "lower_char (CHR ''_'') = CHR ''_''"
  by (simp add: lower_char_def is_upper_def)

lemma clean_char_idem: "clean_char (clean_char c) = clean_char c"
  by (auto simp: clean_char_def Let_def lower_char_idem lower_char_underscore)

lemma clean_label_no_space_edges:
  "clean_label s = [] \<or> (\<not> is_space (hd (clean_label s)) \<and> \<not> is_space (last (clean_label s)))"
proof (cases "strip s = []")
  case True
  then show ?thesis by (simp add: clean_label_map)
next
  case False
  then show ?thesis
    using strip_hd [of s] strip_last [of s]
    by (simp add: clean_label_map hd_map last_map clean_char_space)
qed

lemma clean_label_idem: "clean_label (clean_label s) = clean_label s"
proof -
  have "strip (clean_label s) = clean_label s"
    by (rule strip_fixed) (rule clean_label_no_space_edges)
  then have "clean_label (clean_label s) = map clean_char (clean_label s)"
    by (simp add: clean_label_map [of "clean_label s"])
  also have "\<dots> = clean_label s"
    by (simp add: clean_label_map [of s] clean_char_idem)
  finally show ?thesis .
qed

lemma clean_label_example: "clean_label '' State Name '' = ''state_name''"
  by code_simp

lemma clean_label_length: "length (clean_label s) = length (strip s)"
  by (simp add: clean_label_map)

lemma clean_label_nth: "i < length (strip s) \<Longrightarrow> clean_label s ! i = clean_char (strip s ! i)"
  by (simp add: clean_label_map)

lemma clean_char_not_space_period: "clean_char c \<noteq> CHR '' '' \<and> clean_char c \<noteq> CHR ''.''"
  by (simp add: clean_char_def Let_def)

lemma clean_label_no_space_period:
  "CHR '' '' \<notin> set (clean_label s) \<and> CHR ''.'' \<notin> set (clean_label s)"
  by (metis (no_types) clean_char_not_space_period clean_label_map imageE list.set_map)

lemma is_space_code:
  "is_space c = ((of_char c :: nat) \<in> {9, 10, 11, 12, 13, 28, 29, 30, 31, 32, 133, 160})"
  by (simp add: is_space_def)

lemma is_upper_code:
  "is_upper c = ((of_char c :: nat) \<in> {65..90} \<union> {192..214} \<union> {216..222})"
  by (auto simp: is_upper_def Let_def)

lemma clean_char_cases:
  "clean_char c =
     (if c = CHR '' '' \<or> c = CHR ''.'' then CHR ''_''
      else if is_upper c then char_of (of_char c + 32 :: nat)
      else c)"
  using lower_char_eq_space_period [of c]
  by (simp add: clean_char_def Let_def) (simp add: lower_char_def)

lemma clean_char_not_upper: "\<not> is_upper (clean_char c)"
proof -
  have "\<not> is_upper (CHR ''_'')" by (simp add: is_upper_def)
  with lower_char_not_upper [of c] show ?thesis
    by (simp add: clean_char_def Let_def)
qed

lemma clean_label_not_upper: "c \<in> set (clean_label s) \<Longrightarrow> \<not> is_upper c"
  by (auto simp: clean_label_map clean_char_not_upper)

text \<open>
  C3. For every label \<open>x\<close> over the code points 0 to 255: \<open>x\<close> is a run of whitespace,
  a core that neither starts nor ends with whitespace, and a run of whitespace, and the
  cleaned label is the core with every character replaced, position by position: a
  space and a period by an underscore, a capital letter by its small letter, and any
  other character by itself. So the cleaned label holds no space, no period and no
  capital letter. \<^verbatim>\<open>clean(" State Name ")\<close> is \<^verbatim>\<open>"state_name"\<close>, and cleaning a cleaned
  label changes nothing. The whitespace is the set of code points that \<^verbatim>\<open>str.strip\<close>
  removes, the capital letters are those that \<^verbatim>\<open>str.lower\<close> changes; both are written
  out in the statement.
\<close>

theorem clean_label_spec:
  "(let whitespace = {9, 10, 11, 12, 13, 28, 29, 30, 31, 32, 133, 160 :: nat};
        capital = {65..90} \<union> {192..214} \<union> {216..222 :: nat}
    in clean_label '' State Name '' = ''state_name''
     \<and> clean_label (clean_label x) = clean_label x
     \<and> (\<exists>pre core suf. x = pre @ core @ suf
          \<and> (\<forall>c \<in> set pre. of_char c \<in> whitespace)
          \<and> (\<forall>c \<in> set suf. of_char c \<in> whitespace)
          \<and> (core \<noteq> [] \<longrightarrow> of_char (hd core) \<notin> whitespace \<and> of_char (last core) \<notin> whitespace)
          \<and> length (clean_label x) = length core
          \<and> (\<forall>i < length core.
                clean_label x ! i =
                  (if core ! i = CHR '' '' \<or> core ! i = CHR ''.'' then CHR ''_''
                   else if of_char (core ! i) \<in> capital then char_of (of_char (core ! i) + 32 :: nat)
                   else core ! i)))
     \<and> (\<forall>c \<in> set (clean_label x). c \<noteq> CHR '' '' \<and> c \<noteq> CHR ''.'' \<and> of_char c \<notin> capital))"
proof -
  let ?W = "{9, 10, 11, 12, 13, 28, 29, 30, 31, 32, 133, 160 :: nat}"
  let ?U = "{65..90} \<union> {192..214} \<union> {216..222 :: nat}"
  have 1: "clean_label '' State Name '' = ''state_name''"
    by (rule clean_label_example)
  have 2: "clean_label (clean_label x) = clean_label x"
    by (rule clean_label_idem)
  from strip_decompose [of x] obtain pre suf where
    x: "x = pre @ strip x @ suf" and pre: "list_all is_space pre" and suf: "list_all is_space suf"
    by blast
  have a: "\<forall>c \<in> set pre. of_char c \<in> ?W"
  proof
    fix c assume "c \<in> set pre"
    with pre have "is_space c" by (simp add: list_all_iff)
    then show "of_char c \<in> ?W" by (simp only: is_space_code)
  qed
  have b: "\<forall>c \<in> set suf. of_char c \<in> ?W"
  proof
    fix c assume "c \<in> set suf"
    with suf have "is_space c" by (simp add: list_all_iff)
    then show "of_char c \<in> ?W" by (simp only: is_space_code)
  qed
  have c: "strip x \<noteq> [] \<longrightarrow> of_char (hd (strip x)) \<notin> ?W \<and> of_char (last (strip x)) \<notin> ?W"
    using strip_hd [of x] strip_last [of x] by (simp only: is_space_code) blast
  have d: "length (clean_label x) = length (strip x)"
    by (rule clean_label_length)
  have e: "\<forall>i < length (strip x).
      clean_label x ! i =
        (if strip x ! i = CHR '' '' \<or> strip x ! i = CHR ''.'' then CHR ''_''
         else if of_char (strip x ! i) \<in> ?U then char_of (of_char (strip x ! i) + 32 :: nat)
         else strip x ! i)"
  proof (intro allI impI)
    fix i assume i: "i < length (strip x)"
    have "clean_label x ! i = clean_char (strip x ! i)"
      by (rule clean_label_nth [OF i])
    then show "clean_label x ! i =
        (if strip x ! i = CHR '' '' \<or> strip x ! i = CHR ''.'' then CHR ''_''
         else if of_char (strip x ! i) \<in> ?U then char_of (of_char (strip x ! i) + 32 :: nat)
         else strip x ! i)"
      by (simp only: clean_char_cases is_upper_code)
  qed
  have 3: "\<exists>pre core suf. x = pre @ core @ suf
          \<and> (\<forall>c \<in> set pre. of_char c \<in> ?W)
          \<and> (\<forall>c \<in> set suf. of_char c \<in> ?W)
          \<and> (core \<noteq> [] \<longrightarrow> of_char (hd core) \<notin> ?W \<and> of_char (last core) \<notin> ?W)
          \<and> length (clean_label x) = length core
          \<and> (\<forall>i < length core.
                clean_label x ! i =
                  (if core ! i = CHR '' '' \<or> core ! i = CHR ''.'' then CHR ''_''
                   else if of_char (core ! i) \<in> ?U then char_of (of_char (core ! i) + 32 :: nat)
                   else core ! i))"
    using x a b c d e by blast
  have 4: "\<forall>c \<in> set (clean_label x). c \<noteq> CHR '' '' \<and> c \<noteq> CHR ''.'' \<and> of_char c \<notin> ?U"
  proof
    fix c assume m: "c \<in> set (clean_label x)"
    from clean_label_not_upper [OF m] have "of_char c \<notin> ?U"
      by (simp only: is_upper_code not_False_eq_True)
    moreover from m clean_label_no_space_period [of x]
    have "c \<noteq> CHR '' ''" "c \<noteq> CHR ''.''" by auto
    ultimately show "c \<noteq> CHR '' '' \<and> c \<noteq> CHR ''.'' \<and> of_char c \<notin> ?U" by blast
  qed
  from 1 2 3 4 show ?thesis unfolding Let_def by blast
qed

theorem clean_label_spec_witness:
  "clean_label (clean_label [CHR 0xA0, CHR 0xC9, CHR ''.'', CHR ''b'', CHR '' '', CHR ''C'', CHR 0x09])
     = [CHR 0xE9, CHR ''_'', CHR ''b'', CHR ''_'', CHR ''c'']
   \<and> length (clean_label [CHR 0xA0, CHR 0xC9, CHR ''.'', CHR ''b'', CHR '' '', CHR ''C'', CHR 0x09]) = 5"
proof -
  let ?x = "[CHR 0xA0, CHR 0xC9, CHR ''.'', CHR ''b'', CHR '' '', CHR ''C'', CHR 0x09]"
  have e: "clean_label ?x = [CHR 0xE9, CHR ''_'', CHR ''b'', CHR ''_'', CHR ''c'']" by code_simp
  have "clean_label (clean_label ?x) = clean_label ?x"
    using clean_label_spec [of ?x] unfolding Let_def by blast
  with e show ?thesis by simp
qed

section \<open>Properties of semantic mapping\<close>

lemma rename_loop_step:
  "rename_loop (a # cs) m =
     rename_loop cs (if a \<in> set synonyms then m(a \<mapsto> semantic_name a) else m)"
  by (auto simp: synonyms_def semantic_name_def)

lemma rename_loop_apply:
  "rename_loop cs m c =
     (if c \<in> set cs \<and> c \<in> set synonyms then Some (semantic_name c) else m c)"
proof (induction cs arbitrary: m)
  case Nil
  then show ?case by simp
next
  case (Cons a cs)
  show ?case
    by (simp only: rename_loop_step Cons.IH) auto
qed

lemma distinct_count_list_le: "distinct xs \<Longrightarrow> count_list xs y \<le> 1"
  by (induction xs) (auto simp: count_list_0_iff)

lemma semantic_name_fixed: "c \<notin> set synonyms \<Longrightarrow> semantic_name c = c"
  by (simp add: synonyms_def semantic_name_def)

lemma columns_map_semantic: "columns (map_semantic df) = map semantic_name (columns df)"
proof -
  have "(case rename_loop (columns df) Map.empty c of Some n \<Rightarrow> n | None \<Rightarrow> c) = semantic_name c"
    if "c \<in> set (columns df)" for c
    using that by (simp add: rename_loop_apply semantic_name_fixed)
  then show ?thesis
    by (simp add: map_semantic_def df_rename_def)
qed

lemma rows_map_semantic: "rows (map_semantic df) = rows df"
  by (simp add: map_semantic_def df_rename_def)

lemma columns_normalize: "columns (normalize df) = map clean_label (columns df)"
  by (simp add: normalize_def)

lemma rows_normalize: "rows (normalize df) = rows df"
  by (simp add: normalize_def)

lemma count_list_map_two:
  assumes "c \<in> set xs" and "d \<in> set xs" and "c \<noteq> d" and "f c = f d"
  shows "2 \<le> count_list (map f xs) (f c)"
proof -
  have eq: "count_list (map f ys) y = length (filter (\<lambda>x. f x = y) ys)" for ys y
    by (induction ys) auto
  have "{c, d} \<subseteq> set (filter (\<lambda>x. f x = f c) xs)"
    using assms by auto
  then have "card {c, d} \<le> card (set (filter (\<lambda>x. f x = f c) xs))"
    by (intro card_mono) auto
  also have "\<dots> \<le> length (filter (\<lambda>x. f x = f c) xs)"
    by (rule card_length)
  finally show ?thesis
    using assms(3) by (simp add: eq)
qed

text \<open>
  C10. When the cleaned labels of a dataset hold two different members \<open>c\<close> and \<open>d\<close> of
  one synonym group, semantic mapping renames both to the group's name: the frame keeps
  as many columns as before (nothing is merged), the group's name labels at least two
  of them, so the labels are no longer pairwise different, and the rows are untouched.
  With \<^verbatim>\<open>state\<close> and \<^verbatim>\<open>state_name\<close> the label \<^verbatim>\<open>state\<close> occurs twice and
  \<^verbatim>\<open>state_name\<close> is gone.
\<close>

theorem map_semantic_duplicates:
  assumes "c \<in> set (columns df)" and "d \<in> set (columns df)"
    and "c \<noteq> d" and "semantic_name c = semantic_name d"
  shows "2 \<le> count_list (columns (map_semantic df)) (semantic_name c)
    \<and> length (columns (map_semantic df)) = length (columns df)
    \<and> \<not> distinct (columns (map_semantic df))
    \<and> rows (map_semantic df) = rows df
    \<and> (c = ''state'' \<and> d = ''state_name''
        \<longrightarrow> 2 \<le> count_list (columns (map_semantic df)) ''state''
          \<and> ''state_name'' \<notin> set (columns (map_semantic df)))"
proof -
  have two: "2 \<le> count_list (columns (map_semantic df)) (semantic_name c)"
    using assms by (simp add: columns_map_semantic count_list_map_two)
  have len: "length (columns (map_semantic df)) = length (columns df)"
    by (simp add: columns_map_semantic)
  have nd: "\<not> distinct (columns (map_semantic df))"
  proof
    assume "distinct (columns (map_semantic df))"
    then have "count_list (columns (map_semantic df)) (semantic_name c) \<le> 1"
      by (rule distinct_count_list_le)
    with two show False by simp
  qed
  have gone: "''state_name'' \<notin> set (columns (map_semantic df))"
  proof
    assume "''state_name'' \<in> set (columns (map_semantic df))"
    then obtain x where "semantic_name x = ''state_name''"
      by (auto simp: columns_map_semantic)
    then show False
      by (simp add: semantic_name_def split: if_splits)
  qed
  have st: "c = ''state'' \<Longrightarrow> semantic_name c = ''state''"
    by (simp add: semantic_name_def)
  from two len nd gone st show ?thesis
    by (auto simp: rows_map_semantic)
qed

theorem map_semantic_duplicates_witness:
  "columns (map_semantic (normalize
      \<lparr>columns = [''State'', ''State Name''], rows = [[Str ''Goa'', Str ''GA'']]\<rparr>))
     = [''state'', ''state'']
   \<and> rows (map_semantic (normalize
      \<lparr>columns = [''State'', ''State Name''], rows = [[Str ''Goa'', Str ''GA'']]\<rparr>))
     = [[Str ''Goa'', Str ''GA'']]
   \<and> 2 \<le> count_list (columns (map_semantic (normalize
      \<lparr>columns = [''State'', ''State Name''], rows = [[Str ''Goa'', Str ''GA'']]\<rparr>))) ''state''"
proof -
  let ?raw = "\<lparr>columns = [''State'', ''State Name''], rows = [[Str ''Goa'', Str ''GA'']]\<rparr>"
  have cl: "clean_label ''State'' = ''state''" "clean_label ''State Name'' = ''state_name''"
    by code_simp+
  have cols: "columns (normalize ?raw) = [''state'', ''state_name'']"
    by (simp add: columns_normalize cl)
  have sem: "semantic_name ''state'' = semantic_name ''state_name''"
    by (simp add: semantic_name_def)
  have "2 \<le> count_list (columns (map_semantic (normalize ?raw))) (semantic_name ''state'')"
    using map_semantic_duplicates [of "''state''" "normalize ?raw" "''state_name''"] cols sem
    by simp
  moreover have "columns (map_semantic (normalize ?raw)) = [''state'', ''state'']"
    by (simp add: columns_map_semantic cols semantic_name_def)
  moreover have "rows (map_semantic (normalize ?raw)) = [[Str ''Goa'', Str ''GA'']]"
    by (simp add: rows_map_semantic rows_normalize)
  ultimately show ?thesis
    by (simp add: semantic_name_def)
qed

section \<open>Reading cells\<close>

lemma cell_at_notin: "l \<notin> set cols \<Longrightarrow> cell_at cols r l = Null"
proof -
  assume "l \<notin> set cols"
  then have "l \<notin> fst ` set (zip cols r)"
    by (auto dest: set_zip_leftD)
  then have "map_of (zip cols r) l = None"
    by (simp add: map_of_eq_None_iff)
  then show ?thesis by (simp add: cell_at_def)
qed

lemma cell_at_nth:
  "distinct cols \<Longrightarrow> length r = length cols \<Longrightarrow> i < length cols \<Longrightarrow>
     cell_at cols r (cols ! i) = r ! i"
  by (simp add: cell_at_def map_of_zip_nth)

lemma cell_at_map: "l \<in> set new \<Longrightarrow> cell_at new (map f new) l = f l"
  by (simp add: cell_at_def map_of_zip_map)

lemma cell_at_Cons:
  "cell_at (c # cols) (x # r) l = (if l = c then x else cell_at cols r l)"
  by (simp add: cell_at_def)

lemma cell_at_overwrite:
  "length r = length cols \<Longrightarrow>
     cell_at cols (map2 (\<lambda>c x. if c = k then g x else x) cols r) l =
       (if l = k \<and> k \<in> set cols then g (cell_at cols r l) else cell_at cols r l)"
proof (induction r cols rule: list_induct2)
  case Nil
  then show ?case by (simp add: cell_at_def)
next
  case (Cons x r c cols)
  then show ?case
    by (cases "l = k") (auto simp: cell_at_Cons)
qed

lemma cell_at_append_new:
  "length r = length cols \<Longrightarrow> k \<notin> set cols \<Longrightarrow>
     cell_at (cols @ [k]) (r @ [v]) l = (if l = k then v else cell_at cols r l)"
proof (induction r cols rule: list_induct2)
  case Nil
  then show ?case by (simp add: cell_at_def)
next
  case (Cons x r c cols)
  then show ?case
    by (auto simp: cell_at_Cons)
qed

section \<open>Year tagging\<close>

lemma rectangularD: "rectangular f \<Longrightarrow> r \<in> set (rows f) \<Longrightarrow> length r = length (columns f)"
  by (simp add: rectangular_def list_all_iff)

lemma rectangular_nth: "rectangular f \<Longrightarrow> j < length (rows f) \<Longrightarrow> length (rows f ! j) = length (columns f)"
  by (simp add: rectangularD)

lemma rectangular_normalize: "rectangular (normalize f) = rectangular f"
  by (simp add: rectangular_def normalize_def)

lemma rectangular_map_semantic: "rectangular (map_semantic f) = rectangular f"
  by (simp add: rectangular_def columns_map_semantic rows_map_semantic)

lemma columns_set_year:
  "columns (set_year df y) =
     (if ''year'' \<in> set (columns df) then columns df else columns df @ [''year''])"
  by (simp add: set_year_def)

lemma length_rows_set_year: "length (rows (set_year df y)) = length (rows df)"
  by (simp add: set_year_def)

lemma year_in_set_year: "''year'' \<in> set (columns (set_year df y))"
  by (simp add: columns_set_year)

lemma rectangular_set_year: "rectangular df \<Longrightarrow> rectangular (set_year df y)"
  by (auto simp: rectangular_def set_year_def list_all_iff)

lemma set_year_read:
  assumes "rectangular df" and "j < length (rows df)"
  shows "cell_at (columns (set_year df y)) (rows (set_year df y) ! j) l =
     (if l = ''year'' then Num y else cell_at (columns df) (rows df ! j) l)"
proof -
  have len: "length (rows df ! j) = length (columns df)"
    using assms by (rule rectangular_nth)
  show ?thesis
  proof (cases "''year'' \<in> set (columns df)")
    case True
    then show ?thesis
      using assms(2) cell_at_overwrite [OF len, of "''year''" "\<lambda>x. Num y" l]
      by (simp add: set_year_def)
  next
    case False
    then show ?thesis
      using assms(2) cell_at_append_new [OF len False, of "Num y" l]
      by (simp add: set_year_def)
  qed
qed

lemma set_year_year_cells:
  assumes "rectangular df" and "j < length (rows df)"
    and "p < length (columns (set_year df y))" and "columns (set_year df y) ! p = ''year''"
  shows "rows (set_year df y) ! j ! p = Num y"
proof -
  have len: "length (rows df ! j) = length (columns df)"
    using assms(1,2) by (rule rectangular_nth)
  show ?thesis
  proof (cases "''year'' \<in> set (columns df)")
    case True
    then show ?thesis
      using assms len by (simp add: set_year_def)
  next
    case False
    with assms(3,4) have "p = length (columns df)"
      by (cases "p < length (columns df)") (auto simp: columns_set_year nth_append dest: nth_mem)
    then show ?thesis
      using assms(2) False len by (simp add: set_year_def nth_append)
  qed
qed

lemma set_year_other_cells:
  assumes "rectangular df" and "j < length (rows df)"
    and "i < length (columns df)" and "columns df ! i \<noteq> ''year''"
  shows "rows (set_year df y) ! j ! i = rows df ! j ! i
    \<and> columns (set_year df y) ! i = columns df ! i"
proof -
  have len: "length (rows df ! j) = length (columns df)"
    using assms(1,2) by (rule rectangular_nth)
  show ?thesis
    using assms len by (simp add: set_year_def nth_append)
qed

lemma columns_canonical:
  "columns (canonical d y) =
     (if ''year'' \<in> set (map (\<lambda>c. semantic_name (clean_label c)) (columns d))
      then map (\<lambda>c. semantic_name (clean_label c)) (columns d)
      else map (\<lambda>c. semantic_name (clean_label c)) (columns d) @ [''year''])"
  by (simp add: canonical_def columns_set_year columns_map_semantic columns_normalize)

lemma length_rows_canonical: "length (rows (canonical d y)) = length (rows d)"
  by (simp add: canonical_def length_rows_set_year rows_map_semantic rows_normalize)

lemma rectangular_canonical: "rectangular d \<Longrightarrow> rectangular (canonical d y)"
  by (simp add: canonical_def rectangular_set_year rectangular_map_semantic rectangular_normalize)

lemma year_in_canonical: "''year'' \<in> set (columns (canonical d y))"
  by (simp add: canonical_def year_in_set_year)

section \<open>Concatenation\<close>

lemma set_unique: "set (unique ls) = set ls"
  by (simp add: unique_def)

lemma distinct_unique: "distinct (unique ls)"
  by (simp add: unique_def)

lemma set_union_indexes3: "set (union_indexes [x, y, z]) = set x \<union> set y \<union> set z"
  by (auto simp: union_indexes_def Let_def set_unique)

lemma distinct_union_indexes: "distinct (union_indexes ixs)"
  by (cases ixs) (auto simp: union_indexes_def Let_def set_unique distinct_unique)

lemma length_reindex: "length (reindex t N) = length (rows t)"
  by (simp add: reindex_def)

lemma block_length: "block_of t N B \<Longrightarrow> length B = length (rows t)"
  by (auto simp: block_of_def length_reindex)

lemma block_read:
  assumes "block_of t N B" and "j < length (rows t)"
  shows "cell_at N (B ! j) l = cell_at (columns t) (rows t ! j) l"
proof -
  from assms(1) consider (same) "N = columns t" "B = rows t"
    | (re) "distinct (columns t)" "set (columns t) \<subseteq> set N" "B = reindex t N"
    by (auto simp: block_of_def)
  then show ?thesis
  proof cases
    case same
    then show ?thesis by simp
  next
    case re
    have row: "B ! j = map (cell_at (columns t) (rows t ! j)) N"
      using re(3) assms(2) by (simp add: reindex_def)
    show ?thesis
    proof (cases "l \<in> set N")
      case True
      then show ?thesis by (simp add: row cell_at_map)
    next
      case False
      with re(2) have "l \<notin> set (columns t)" by blast
      with False show ?thesis by (simp add: cell_at_notin)
    qed
  qed
qed

lemma block_position:
  assumes "rectangular t" and "block_of t N B" and "i < length (columns t)"
  shows "\<exists>p < length N. N ! p = columns t ! i \<and> (\<forall>j < length (rows t). B ! j ! p = rows t ! j ! i)"
proof -
  from assms(2) consider (same) "N = columns t" "B = rows t"
    | (re) "distinct (columns t)" "set (columns t) \<subseteq> set N" "B = reindex t N"
    by (auto simp: block_of_def)
  then show ?thesis
  proof cases
    case same
    with assms(3) show ?thesis by auto
  next
    case re
    have "columns t ! i \<in> set N"
      using re(2) assms(3) by (meson nth_mem subsetD)
    then obtain p where p: "p < length N" "N ! p = columns t ! i"
      by (auto simp: in_set_conv_nth)
    have "B ! j ! p = rows t ! j ! i" if j: "j < length (rows t)" for j
    proof -
      have "B ! j ! p = cell_at (columns t) (rows t ! j) (columns t ! i)"
        using re(3) j p by (simp add: reindex_def)
      also have "\<dots> = rows t ! j ! i"
        using re(1) assms(3) rectangular_nth [OF assms(1) j] by (simp add: cell_at_nth)
      finally show ?thesis .
    qed
    with p show ?thesis by blast
  qed
qed

lemma block_absent:
  assumes "block_of t N B" and "p < length N" and "N ! p \<notin> set (columns t)"
    and "j < length (rows t)"
  shows "B ! j ! p = Null"
proof -
  from assms(1) consider (same) "N = columns t" "B = rows t"
    | (re) "distinct (columns t)" "set (columns t) \<subseteq> set N" "B = reindex t N"
    by (auto simp: block_of_def)
  then show ?thesis
  proof cases
    case same
    with assms(2,3) show ?thesis by simp
  next
    case re
    then show ?thesis
      using assms(2,3,4) by (simp add: reindex_def cell_at_notin)
  qed
qed

lemma block_row_length:
  assumes "rectangular t" and "block_of t N B" and "j < length (rows t)"
  shows "length (B ! j) = length N"
  using assms by (auto simp: block_of_def reindex_def rectangular_nth)

lemma block_year:
  assumes "rectangular d" and "block_of (set_year d y) N B" and "j < length (rows d)"
    and "p < length N" and "N ! p = ''year''"
  shows "B ! j ! p = Num y"
proof -
  let ?t = "set_year d y"
  from assms(2) consider (same) "N = columns ?t" "B = rows ?t"
    | (re) "distinct (columns ?t)" "set (columns ?t) \<subseteq> set N" "B = reindex ?t N"
    by (auto simp: block_of_def)
  then show ?thesis
  proof cases
    case same
    then show ?thesis
      using set_year_year_cells [OF assms(1,3), of p y] assms(4,5) by simp
  next
    case re
    have "B ! j ! p = cell_at (columns ?t) (rows ?t ! j) ''year''"
      using re(3) assms(3,4,5) by (simp add: reindex_def length_rows_set_year)
    also have "\<dots> = Num y"
      using set_year_read [OF assms(1,3), of y "''year''"] by simp
    finally show ?thesis .
  qed
qed

lemma concat3_blocks:
  assumes "concat_frames [a, b, c] = Inr u"
  shows "\<exists>Ba Bb Bc. rows u = Ba @ Bb @ Bc
      \<and> block_of a (columns u) Ba \<and> block_of b (columns u) Bb \<and> block_of c (columns u) Bc"
proof (cases "columns b = columns a \<and> columns c = columns a")
  case True
  with assms have "columns u = columns a" "rows u = rows a @ rows b @ rows c"
    by (auto simp: concat_frames_def)
  with True have "rows u = rows a @ rows b @ rows c
      \<and> block_of a (columns u) (rows a) \<and> block_of b (columns u) (rows b)
      \<and> block_of c (columns u) (rows c)"
    by (simp add: block_of_def)
  then show ?thesis by blast
next
  case False
  let ?N = "union_indexes [columns a, columns b, columns c]"
  from False assms have d: "distinct (columns a)" "distinct (columns b)" "distinct (columns c)"
    and u: "columns u = ?N" "rows u = reindex a ?N @ reindex b ?N @ reindex c ?N"
    by (auto simp: concat_frames_def Let_def split: if_splits)
  have "set (columns a) \<subseteq> set ?N" "set (columns b) \<subseteq> set ?N" "set (columns c) \<subseteq> set ?N"
    by (auto simp: set_union_indexes3)
  with d u have "rows u = reindex a ?N @ reindex b ?N @ reindex c ?N
      \<and> block_of a (columns u) (reindex a ?N) \<and> block_of b (columns u) (reindex b ?N)
      \<and> block_of c (columns u) (reindex c ?N)"
    by (simp add: block_of_def)
  then show ?thesis by blast
qed

lemma concat3_columns:
  assumes "concat_frames [a, b, c] = Inr u"
  shows "set (columns u) = set (columns a) \<union> set (columns b) \<union> set (columns c)"
proof (cases "columns b = columns a \<and> columns c = columns a")
  case True
  with assms show ?thesis by (auto simp: concat_frames_def)
next
  case False
  with assms have "columns u = union_indexes [columns a, columns b, columns c]"
    by (auto simp: concat_frames_def Let_def split: if_splits)
  then show ?thesis by (simp only: set_union_indexes3)
qed

lemma concat3_year_count:
  assumes "concat_frames [a, b, c] = Inr u"
  shows "count_list (columns u) l = max (count_list (columns a) l)
      (if l \<in> set (columns a) \<union> set (columns b) \<union> set (columns c) then 1 else 0)"
proof (cases "columns b = columns a \<and> columns c = columns a")
  case True
  with assms have "columns u = columns a" by (auto simp: concat_frames_def)
  moreover have "0 < count_list (columns a) l" if "l \<in> set (columns a)"
    using that count_list_0_iff [of "columns a" l] by (cases "count_list (columns a) l") auto
  moreover have "count_list (columns a) l = 0" if "l \<notin> set (columns a)"
    using that by (simp add: count_list_0_iff)
  ultimately show ?thesis
    using True by (cases "l \<in> set (columns a)") (auto simp: max_def)
next
  case False
  with assms have d: "distinct (columns a)"
    and u: "columns u = union_indexes [columns a, columns b, columns c]"
    by (auto simp: concat_frames_def Let_def split: if_splits)
  have du: "distinct (columns u)" by (simp add: u distinct_union_indexes)
  have su: "set (columns u) = set (columns a) \<union> set (columns b) \<union> set (columns c)"
    by (simp only: u set_union_indexes3)
  have one: "count_list xs l = (if l \<in> set xs then 1 else 0)" if "distinct xs" for xs
    using that by (induction xs) (auto simp: count_list_0_iff)
  show ?thesis
    by (auto simp: one [OF du] one [OF d] su)
qed

section \<open>The structure of \<^verbatim>\<open>load_data\<close>\<close>

lemma load_data_Inr:
  assumes "load_data numeric a b c = Inr u"
  shows "\<exists>s. sanitize_margin numeric c = Inr s
      \<and> concat_frames [canonical a 2014, canonical b 2019, canonical s 2024] = Inr u"
  using assms by (auto simp: load_data_def canonical_def Let_def split: sum.splits)

lemma load_data_eq:
  "sanitize_margin numeric c = Inr s \<Longrightarrow>
     load_data numeric a b c = concat_frames [canonical a 2014, canonical b 2019, canonical s 2024]"
  by (simp add: load_data_def canonical_def Let_def)

lemma sanitize_columns: "sanitize_margin numeric c = Inr s \<Longrightarrow> columns s = columns c"
  by (auto simp: sanitize_margin_def split: if_splits)

lemma sanitize_rows:
  "sanitize_margin numeric c = Inr s \<Longrightarrow>
     rows s =
       (if ''Margin'' \<in> set (columns c)
        then filter (\<lambda>r. cell_at (columns c) r ''Margin'' \<noteq> Null)
               (map (coerce_margin numeric (columns c)) (rows c))
        else rows c)"
  by (auto simp: sanitize_margin_def split: if_splits)

lemma sanitize_csv: "csv_frame c \<Longrightarrow> \<exists>s. sanitize_margin numeric c = Inr s"
  using distinct_count_list_le [of "columns c" "''Margin''"]
  by (auto simp: sanitize_margin_def csv_frame_def)

lemma length_coerce_margin: "length r = length cols \<Longrightarrow> length (coerce_margin numeric cols r) = length cols"
  by (simp add: coerce_margin_def)

lemma sanitize_rectangular:
  assumes "rectangular c" and "sanitize_margin numeric c = Inr s"
  shows "rectangular s"
  using assms
  by (auto simp: sanitize_margin_def rectangular_def list_all_iff length_coerce_margin
      split: if_splits)

section \<open>The example inputs loaded\<close>

lemma scenario_csv: "csv_frame scen14 \<and> csv_frame scen19 \<and> csv_frame scen24"
  by (simp add: csv_frame_def rectangular_def scen14_def scen19_def scen24_def)

lemma scenario_load: "load_data parse_number scen14 scen19 scen24 = Inr scen_union"
  by code_simp

section \<open>Rows and their years in the loaded table\<close>

lemma block_year_read:
  assumes "rectangular d" and "block_of (canonical d y) N B" and "r \<in> set B"
  shows "cell_at N r ''year'' = Num y"
proof -
  let ?m = "map_semantic (normalize d)"
  have rect: "rectangular ?m"
    using assms(1) by (simp add: rectangular_map_semantic rectangular_normalize)
  have len: "length B = length (rows ?m)"
    using block_length [OF assms(2)] by (simp add: canonical_def length_rows_set_year)
  from assms(3) obtain j where j: "j < length B" "r = B ! j"
    by (auto simp: in_set_conv_nth)
  have "cell_at N (B ! j) ''year'' = cell_at (columns (canonical d y)) (rows (canonical d y) ! j) ''year''"
    using block_read [OF assms(2)] j(1) block_length [OF assms(2)] by simp
  also have "\<dots> = Num y"
    using set_year_read [OF rect, of j y "''year''"] j(1) len by (simp add: canonical_def)
  finally show ?thesis using j(2) by simp
qed

lemma block_year_cells:
  assumes "rectangular d" and "block_of (canonical d y) N B" and "r \<in> set B"
    and "p < length N" and "N ! p = ''year''"
  shows "r ! p = Num y"
proof -
  let ?m = "map_semantic (normalize d)"
  have rect: "rectangular ?m"
    using assms(1) by (simp add: rectangular_map_semantic rectangular_normalize)
  have len: "length B = length (rows ?m)"
    using block_length [OF assms(2)] by (simp add: canonical_def length_rows_set_year)
  from assms(3) obtain j where j: "j < length B" "r = B ! j"
    by (auto simp: in_set_conv_nth)
  have "block_of (set_year ?m y) N B"
    using assms(2) by (simp add: canonical_def)
  from block_year [OF rect this _ assms(4,5), of j] j len show ?thesis by simp
qed

lemma filter_year_block:
  assumes "rectangular d" and "block_of (canonical d y) N B"
  shows "filter (\<lambda>r. cell_eq (cell_at N r ''year'') (Num z)) B = (if z = y then B else [])"
proof -
  have "cell_eq (cell_at N r ''year'') (Num z) = (z = y)" if "r \<in> set B" for r
    using block_year_read [OF assms that] by (auto simp: cell_eq_def)
  then show ?thesis
    by (auto simp: filter_empty_conv intro: filter_True)
qed

lemma load_data_blocks:
  assumes "rectangular a" and "rectangular b" and "rectangular c"
    and "load_data numeric a b c = Inr u"
  shows "\<exists>s Ba Bb Bc. sanitize_margin numeric c = Inr s \<and> rectangular s
      \<and> rows u = Ba @ Bb @ Bc
      \<and> block_of (canonical a 2014) (columns u) Ba
      \<and> block_of (canonical b 2019) (columns u) Bb
      \<and> block_of (canonical s 2024) (columns u) Bc
      \<and> rows (select_eq u ''year'' (Num 2014)) = Ba
      \<and> rows (select_eq u ''year'' (Num 2019)) = Bb
      \<and> rows (select_eq u ''year'' (Num 2024)) = Bc"
proof -
  from load_data_Inr [OF assms(4)] obtain s where s: "sanitize_margin numeric c = Inr s"
    and cc: "concat_frames [canonical a 2014, canonical b 2019, canonical s 2024] = Inr u"
    by blast
  have rs: "rectangular s" using assms(3) s by (rule sanitize_rectangular)
  from concat3_blocks [OF cc] obtain Ba Bb Bc where rows: "rows u = Ba @ Bb @ Bc"
    and ba: "block_of (canonical a 2014) (columns u) Ba"
    and bb: "block_of (canonical b 2019) (columns u) Bb"
    and bc: "block_of (canonical s 2024) (columns u) Bc"
    by blast
  have sel: "rows (select_eq u ''year'' (Num z)) =
      filter (\<lambda>r. cell_eq (cell_at (columns u) r ''year'') (Num z)) Ba
      @ filter (\<lambda>r. cell_eq (cell_at (columns u) r ''year'') (Num z)) Bb
      @ filter (\<lambda>r. cell_eq (cell_at (columns u) r ''year'') (Num z)) Bc" for z
    by (simp add: select_eq_def rows)
  have "rows (select_eq u ''year'' (Num 2014)) = Ba"
    by (simp add: sel filter_year_block [OF assms(1) ba] filter_year_block [OF assms(2) bb]
        filter_year_block [OF rs bc])
  moreover have "rows (select_eq u ''year'' (Num 2019)) = Bb"
    by (simp add: sel filter_year_block [OF assms(1) ba] filter_year_block [OF assms(2) bb]
        filter_year_block [OF rs bc])
  moreover have "rows (select_eq u ''year'' (Num 2024)) = Bc"
    by (simp add: sel filter_year_block [OF assms(1) ba] filter_year_block [OF assms(2) bb]
        filter_year_block [OF rs bc])
  ultimately show ?thesis
    using s rs rows ba bb bc by blast
qed

lemma count_year_canonical:
  "count_list (columns (canonical d y)) ''year'' =
     max 1 (count_list (map clean_label (columns d)) ''year'')"
proof -
  have sem: "(semantic_name x = ''year'') = (x = ''year'')" for x
    by (simp add: semantic_name_def)
  have sem': "(''year'' = semantic_name x) = (''year'' = x)" for x
    using sem [of x] by auto
  have eq: "count_list (map (\<lambda>c. semantic_name (clean_label c)) xs) ''year''
      = count_list (map clean_label xs) ''year''" for xs
    by (induction xs) (simp_all add: sem)
  have mem: "(''year'' \<in> set (map (\<lambda>c. semantic_name (clean_label c)) xs))
      = (''year'' \<in> set (map clean_label xs))" for xs
    by (induction xs) (simp_all add: sem sem')
  have pos: "0 < count_list xs l" if "l \<in> set xs" for xs :: "string list" and l
    using that count_list_0_iff [of xs l] by (cases "count_list xs l") auto
  show ?thesis
  proof (cases "''year'' \<in> set (map clean_label (columns d))")
    case True
    then have m: "''year'' \<in> set (map (\<lambda>c. semantic_name (clean_label c)) (columns d))"
      by (simp only: mem)
    from pos [OF True] m show ?thesis
      by (simp add: columns_canonical eq max_def)
  next
    case False
    then have m: "''year'' \<notin> set (map (\<lambda>c. semantic_name (clean_label c)) (columns d))"
      by (simp only: mem not_False_eq_True)
    from False have "count_list (map clean_label (columns d)) ''year'' = 0"
      by (simp only: count_list_0_iff not_False_eq_True)
    with m show ?thesis
      by (simp add: columns_canonical eq)
  qed
qed

text \<open>
  What year tagging achieves whenever \<^verbatim>\<open>load_data\<close> returns: the rows of the table are
  the rows of the 2014 file, then those of the 2019 file, then those that are kept of
  the 2024 file; every cell under a label \<^verbatim>\<open>year\<close> holds the year of the file the row
  comes from; the rows selected for the three years add up to all rows; and the
  number of columns labelled \<^verbatim>\<open>year\<close> is the number of labels of the 2014 file that
  clean to \<^verbatim>\<open>year\<close>, or one when there is none.
\<close>

lemma year_tagging:
  assumes "rectangular a" and "rectangular b" and "rectangular c"
    and "load_data numeric a b c = Inr u"
  shows "has u ''year''
    \<and> (\<exists>s Ba Bb Bc. sanitize_margin numeric c = Inr s \<and> rows u = Ba @ Bb @ Bc
          \<and> length Ba = length (rows a) \<and> length Bb = length (rows b)
          \<and> length Bc = length (rows s)
          \<and> (\<forall>r \<in> set Ba. cell_at (columns u) r ''year'' = Num 2014
                \<and> (\<forall>p < length (columns u). columns u ! p = ''year'' \<longrightarrow> r ! p = Num 2014))
          \<and> (\<forall>r \<in> set Bb. cell_at (columns u) r ''year'' = Num 2019
                \<and> (\<forall>p < length (columns u). columns u ! p = ''year'' \<longrightarrow> r ! p = Num 2019))
          \<and> (\<forall>r \<in> set Bc. cell_at (columns u) r ''year'' = Num 2024
                \<and> (\<forall>p < length (columns u). columns u ! p = ''year'' \<longrightarrow> r ! p = Num 2024)))
    \<and> length (rows (select_eq u ''year'' (Num 2014)))
        + length (rows (select_eq u ''year'' (Num 2019)))
        + length (rows (select_eq u ''year'' (Num 2024))) = length (rows u)
    \<and> count_list (columns u) ''year'' = max 1 (count_list (map clean_label (columns a)) ''year'')"
proof -
  from load_data_blocks [OF assms] obtain s Ba Bb Bc where
    s: "sanitize_margin numeric c = Inr s" and rs: "rectangular s"
    and rows: "rows u = Ba @ Bb @ Bc"
    and ba: "block_of (canonical a 2014) (columns u) Ba"
    and bb: "block_of (canonical b 2019) (columns u) Bb"
    and bc: "block_of (canonical s 2024) (columns u) Bc"
    and sel: "rows (select_eq u ''year'' (Num 2014)) = Ba"
      "rows (select_eq u ''year'' (Num 2019)) = Bb"
      "rows (select_eq u ''year'' (Num 2024)) = Bc"
    by blast
  have cc: "concat_frames [canonical a 2014, canonical b 2019, canonical s 2024] = Inr u"
    using assms(4) load_data_eq [OF s, of a b] by simp
  have 1: "has u ''year''"
    using concat3_columns [OF cc] by (simp add: has_def year_in_canonical)
  have la: "length Ba = length (rows a)"
    using block_length [OF ba] by (simp add: length_rows_canonical)
  have lb: "length Bb = length (rows b)"
    using block_length [OF bb] by (simp add: length_rows_canonical)
  have lc: "length Bc = length (rows s)"
    using block_length [OF bc] by (simp add: length_rows_canonical)
  have ya: "\<forall>r \<in> set Ba. cell_at (columns u) r ''year'' = Num 2014
      \<and> (\<forall>p < length (columns u). columns u ! p = ''year'' \<longrightarrow> r ! p = Num 2014)"
    using block_year_read [OF assms(1) ba] block_year_cells [OF assms(1) ba] by blast
  have yb: "\<forall>r \<in> set Bb. cell_at (columns u) r ''year'' = Num 2019
      \<and> (\<forall>p < length (columns u). columns u ! p = ''year'' \<longrightarrow> r ! p = Num 2019)"
    using block_year_read [OF assms(2) bb] block_year_cells [OF assms(2) bb] by blast
  have yc: "\<forall>r \<in> set Bc. cell_at (columns u) r ''year'' = Num 2024
      \<and> (\<forall>p < length (columns u). columns u ! p = ''year'' \<longrightarrow> r ! p = Num 2024)"
    using block_year_read [OF rs bc] block_year_cells [OF rs bc] by blast
  have 2: "\<exists>s Ba Bb Bc. sanitize_margin numeric c = Inr s \<and> rows u = Ba @ Bb @ Bc
          \<and> length Ba = length (rows a) \<and> length Bb = length (rows b)
          \<and> length Bc = length (rows s)
          \<and> (\<forall>r \<in> set Ba. cell_at (columns u) r ''year'' = Num 2014
                \<and> (\<forall>p < length (columns u). columns u ! p = ''year'' \<longrightarrow> r ! p = Num 2014))
          \<and> (\<forall>r \<in> set Bb. cell_at (columns u) r ''year'' = Num 2019
                \<and> (\<forall>p < length (columns u). columns u ! p = ''year'' \<longrightarrow> r ! p = Num 2019))
          \<and> (\<forall>r \<in> set Bc. cell_at (columns u) r ''year'' = Num 2024
                \<and> (\<forall>p < length (columns u). columns u ! p = ''year'' \<longrightarrow> r ! p = Num 2024))"
    using s rows la lb lc ya yb yc by blast
  have 3: "length (rows (select_eq u ''year'' (Num 2014)))
        + length (rows (select_eq u ''year'' (Num 2019)))
        + length (rows (select_eq u ''year'' (Num 2024))) = length (rows u)"
    by (simp add: sel rows)
  have 4: "count_list (columns u) ''year'' = max 1 (count_list (map clean_label (columns a)) ''year'')"
    using concat3_year_count [OF cc, of "''year''"]
    by (simp add: year_in_canonical count_year_canonical)
  from 1 2 3 4 show ?thesis by blast
qed

text \<open>
  C5 fails on the code. Three files that each carry the labels \<^verbatim>\<open>Year\<close> and \<^verbatim>\<open>year\<close>
  are well-formed; both labels are cleaned to \<^verbatim>\<open>year\<close>, the year tag is written into
  both columns, and \<^verbatim>\<open>load_data\<close> returns a table whose rows have two \<^verbatim>\<open>year\<close>
  fields. Line 86 of the script, \<^verbatim>\<open>df["year"].unique()\<close>, then raises
  \<^verbatim>\<open>AttributeError\<close>, whichever year and filters are chosen.
\<close>

theorem year_field_twice:
  "csv_frame year_twice
   \<and> load_data parse_number year_twice year_twice year_twice = Inr year_twice_union
   \<and> columns year_twice_union = [''year'', ''year'']
   \<and> count_list (columns year_twice_union) ''year'' = 2
   \<and> filtered_view year_twice_union (Num 2014) (Str ''All'') (Str ''All'') = Inl AttributeError"
proof -
  have "csv_frame year_twice"
    by (simp add: csv_frame_def rectangular_def year_twice_def)
  moreover have "load_data parse_number year_twice year_twice year_twice = Inr year_twice_union"
    by code_simp
  moreover have "columns year_twice_union = [''year'', ''year'']"
    by (simp add: year_twice_union_def)
  moreover have "count_list (columns year_twice_union) ''year'' = 2"
    by (simp add: year_twice_union_def)
  moreover have "filtered_view year_twice_union (Num 2014) (Str ''All'') (Str ''All'') = Inl AttributeError"
    by code_simp
  ultimately show ?thesis by blast
qed

section \<open>Margin sanitation and the rows it keeps\<close>

lemma coerce_margin_read:
  "length r = length cols \<Longrightarrow>
     cell_at cols (coerce_margin numeric cols r) l =
       (if l = ''Margin'' \<and> ''Margin'' \<in> set cols then to_numeric numeric (cell_at cols r l)
        else cell_at cols r l)"
  unfolding coerce_margin_def by (rule cell_at_overwrite)

lemma coerce_margin_nth:
  "length r = length cols \<Longrightarrow> i < length cols \<Longrightarrow>
     coerce_margin numeric cols r ! i =
       (if cols ! i = ''Margin'' then to_numeric numeric (r ! i) else r ! i)"
  by (simp add: coerce_margin_def)

lemma sanitize_rows_kept:
  assumes "rectangular c" and "sanitize_margin numeric c = Inr s"
  shows "rows s =
     (if ''Margin'' \<in> set (columns c)
      then map (coerce_margin numeric (columns c)) (kept numeric c) else rows c)"
proof (cases "''Margin'' \<in> set (columns c)")
  case False
  then show ?thesis using sanitize_rows [OF assms(2)] by simp
next
  case True
  have "filter (\<lambda>r. cell_at (columns c) r ''Margin'' \<noteq> Null)
          (map (coerce_margin numeric (columns c)) (rows c))
      = map (coerce_margin numeric (columns c))
          (filter (\<lambda>r. to_numeric numeric (cell_at (columns c) r ''Margin'') \<noteq> Null) (rows c))"
    unfolding filter_map
  proof (rule arg_cong [where f = "map (coerce_margin numeric (columns c))"], rule filter_cong)
    show "rows c = rows c" by simp
  next
    fix r assume "r \<in> set (rows c)"
    then have "length r = length (columns c)" using assms(1) by (simp add: rectangularD)
    then show "((\<lambda>r. cell_at (columns c) r ''Margin'' \<noteq> Null) \<circ> coerce_margin numeric (columns c)) r
        = (to_numeric numeric (cell_at (columns c) r ''Margin'') \<noteq> Null)"
      using True by (simp add: coerce_margin_read)
  qed
  with True show ?thesis using sanitize_rows [OF assms(2)] by (simp add: kept_def)
qed

lemma sanitize_length:
  assumes "rectangular c" and "sanitize_margin numeric c = Inr s"
  shows "length (rows s) = length (kept numeric c)"
  using sanitize_rows_kept [OF assms] by (simp add: kept_def)

lemma kept_subset: "set (kept numeric c) \<subseteq> set (rows c)"
  by (auto simp: kept_def)

lemma columns_canonical_sanitize:
  "sanitize_margin numeric c = Inr s \<Longrightarrow> columns (canonical s y) = columns (canonical c y)"
  by (simp add: columns_canonical sanitize_columns)

section \<open>Field presence in the loaded table\<close>

lemma has_select_eq: "has (select_eq df l v) k = has df k"
  by (simp add: has_def select_eq_def)

lemma in_columns_canonical:
  "(l \<in> set (columns (canonical d y))) =
     (l = ''year'' \<or> (\<exists>x \<in> set (columns d). semantic_name (clean_label x) = l))"
  by (auto simp: columns_canonical)

lemma load_data_columns:
  assumes "load_data numeric a b c = Inr u"
  shows "set (columns u) = set (columns (canonical a 2014)) \<union> set (columns (canonical b 2019))
      \<union> set (columns (canonical c 2024))"
proof -
  from load_data_Inr [OF assms] obtain s where s: "sanitize_margin numeric c = Inr s"
    and cc: "concat_frames [canonical a 2014, canonical b 2019, canonical s 2024] = Inr u"
    by blast
  show ?thesis
    using concat3_columns [OF cc] by (simp only: columns_canonical_sanitize [OF s])
qed

lemma block_missing_read:
  assumes "block_of t N B" and "r \<in> set B" and "l \<notin> set (columns t)"
  shows "cell_at N r l = Null"
proof -
  from assms(2) obtain j where j: "j < length B" "r = B ! j"
    by (auto simp: in_set_conv_nth)
  with block_length [OF assms(1)] have "j < length (rows t)" by simp
  from block_read [OF assms(1) this, of l] j(2) assms(3) show ?thesis
    by (simp add: cell_at_notin)
qed

text \<open>
  The year filter keeps the labels of the table, so \<^verbatim>\<open>has\<close> answers for the filtered
  view what it answers for the whole table: a field other than \<^verbatim>\<open>year\<close> is present
  exactly when some label of one of the three files is cleaned and mapped to it,
  whichever file that is. For the rows of a file none of whose labels maps to the
  field, the field is missing in every row.
\<close>

lemma presence_after_year_filter:
  assumes "rectangular a" and "rectangular b" and "rectangular c"
    and "load_data numeric a b c = Inr u" and "l \<noteq> ''year''"
  shows "has (select_eq u ''year'' y) l = has u l
    \<and> has u l =
        (\<exists>x \<in> set (columns a) \<union> set (columns b) \<union> set (columns c).
           semantic_name (clean_label x) = l)
    \<and> ((\<forall>x \<in> set (columns a). semantic_name (clean_label x) \<noteq> l) \<longrightarrow>
          (\<forall>r \<in> set (rows (select_eq u ''year'' (Num 2014))). cell_at (columns u) r l = Null))
    \<and> ((\<forall>x \<in> set (columns b). semantic_name (clean_label x) \<noteq> l) \<longrightarrow>
          (\<forall>r \<in> set (rows (select_eq u ''year'' (Num 2019))). cell_at (columns u) r l = Null))
    \<and> ((\<forall>x \<in> set (columns c). semantic_name (clean_label x) \<noteq> l) \<longrightarrow>
          (\<forall>r \<in> set (rows (select_eq u ''year'' (Num 2024))). cell_at (columns u) r l = Null))"
proof -
  from load_data_blocks [OF assms(1-4)] obtain s Ba Bb Bc where
    s: "sanitize_margin numeric c = Inr s"
    and ba: "block_of (canonical a 2014) (columns u) Ba"
    and bb: "block_of (canonical b 2019) (columns u) Bb"
    and bc: "block_of (canonical s 2024) (columns u) Bc"
    and sel: "rows (select_eq u ''year'' (Num 2014)) = Ba"
      "rows (select_eq u ''year'' (Num 2019)) = Bb"
      "rows (select_eq u ''year'' (Num 2024)) = Bc"
    by blast
  have 1: "has (select_eq u ''year'' y) l = has u l"
    by (rule has_select_eq)
  have 2: "has u l =
        (\<exists>x \<in> set (columns a) \<union> set (columns b) \<union> set (columns c).
           semantic_name (clean_label x) = l)"
    using assms(5) load_data_columns [OF assms(4)]
    by (auto simp: has_def in_columns_canonical)
  have 3: "\<forall>r \<in> set (rows (select_eq u ''year'' (Num 2014))). cell_at (columns u) r l = Null"
    if "\<forall>x \<in> set (columns a). semantic_name (clean_label x) \<noteq> l"
  proof -
    from that assms(5) have "l \<notin> set (columns (canonical a 2014))"
      by (simp add: in_columns_canonical)
    with block_missing_read [OF ba] sel(1) show ?thesis by simp
  qed
  have 4: "\<forall>r \<in> set (rows (select_eq u ''year'' (Num 2019))). cell_at (columns u) r l = Null"
    if "\<forall>x \<in> set (columns b). semantic_name (clean_label x) \<noteq> l"
  proof -
    from that assms(5) have "l \<notin> set (columns (canonical b 2019))"
      by (simp add: in_columns_canonical)
    with block_missing_read [OF bb] sel(2) show ?thesis by simp
  qed
  have 5: "\<forall>r \<in> set (rows (select_eq u ''year'' (Num 2024))). cell_at (columns u) r l = Null"
    if "\<forall>x \<in> set (columns c). semantic_name (clean_label x) \<noteq> l"
  proof -
    from that assms(5) have "l \<notin> set (columns (canonical s 2024))"
      by (simp add: in_columns_canonical sanitize_columns [OF s])
    with block_missing_read [OF bc] sel(3) show ?thesis by simp
  qed
  from 1 2 3 4 5 show ?thesis by blast
qed

text \<open>
  C1 fails on the code. The 2014 file of the example has no label that maps to
  \<^verbatim>\<open>margin\<close>, the 2024 file has one. For the view filtered to 2014 \<^verbatim>\<open>has\<close> answers that
  the field is present, and the column the view has under \<^verbatim>\<open>margin\<close> holds a missing
  value in every row. The script uses \<^verbatim>\<open>has(filtered, ...)\<close> as its test that a field is
  available for the selected year (lines 92, 103, 122, 127 and 138, each with a branch
  for a field that is not available) and as the guard of its charts (lines 150 to 191);
  here the guard of the margin histogram at line 172 lets the column of missing values
  through.
\<close>

theorem presence_without_margin_column:
  "load_data parse_number scen14 scen19 scen24 = Inr scen_union
   \<and> \<not> has (map_semantic (normalize scen14)) ''margin''
   \<and> filtered_view scen_union (Num 2014) (Str ''All'') (Str ''All'')
       = Inr (select_eq scen_union ''year'' (Num 2014))
   \<and> has (select_eq scen_union ''year'' (Num 2014)) ''margin''
   \<and> series (select_eq scen_union ''year'' (Num 2014)) ''margin'' = [Null, Null]"
proof -
  have "\<not> has (map_semantic (normalize scen14)) ''margin''"
    by code_simp
  moreover have "filtered_view scen_union (Num 2014) (Str ''All'') (Str ''All'')
       = Inr (select_eq scen_union ''year'' (Num 2014))"
    by code_simp
  moreover have "has (select_eq scen_union ''year'' (Num 2014)) ''margin''"
    by (simp add: has_def select_eq_def scen_union_def)
  moreover have "series (select_eq scen_union ''year'' (Num 2014)) ''margin'' = [Null, Null]"
    by code_simp
  ultimately show ?thesis
    using scenario_load by blast
qed

section \<open>The loaded table, row by row\<close>

lemma canonical_read:
  assumes "rectangular d" and "j < length (rows d)"
  shows "cell_at (columns (canonical d y)) (rows (canonical d y) ! j) l =
     (if l = ''year'' then Num y
      else cell_at (map (\<lambda>x. semantic_name (clean_label x)) (columns d)) (rows d ! j) l)"
proof -
  let ?m = "map_semantic (normalize d)"
  have rect: "rectangular ?m"
    using assms(1) by (simp add: rectangular_map_semantic rectangular_normalize)
  have j: "j < length (rows ?m)"
    using assms(2) by (simp add: rows_map_semantic rows_normalize)
  show ?thesis
    using set_year_read [OF rect j, of y l]
    by (simp add: canonical_def columns_map_semantic columns_normalize rows_map_semantic
        rows_normalize comp_def)
qed

lemma concat3_shape:
  assumes "concat_frames [a, b, c] = Inr u"
  shows "distinct (columns u) \<or> (columns u = columns a \<and> rows u = rows a @ rows b @ rows c)"
proof (cases "columns b = columns a \<and> columns c = columns a")
  case True
  with assms show ?thesis by (auto simp: concat_frames_def)
next
  case False
  with assms have "columns u = union_indexes [columns a, columns b, columns c]"
    by (auto simp: concat_frames_def Let_def split: if_splits)
  then show ?thesis by (simp add: distinct_union_indexes)
qed

lemma block_rows_read:
  assumes "rectangular d" and "block_of (canonical d y) N B" and "j < length (rows d)"
  shows "cell_at N (B ! j) l =
     (if l = ''year'' then Num y
      else cell_at (map (\<lambda>x. semantic_name (clean_label x)) (columns d)) (rows d ! j) l)"
proof -
  have "j < length (rows (canonical d y))"
    using assms(3) by (simp add: length_rows_canonical)
  from block_read [OF assms(2) this, of l] canonical_read [OF assms(1,3), of y l]
  show ?thesis by simp
qed

lemma block_rows_absent:
  assumes "block_of (canonical d y) N B" and "j < length (rows d)"
    and "p < length N" and "N ! p \<notin> set (columns (canonical d y))"
  shows "B ! j ! p = Null"
proof -
  have "j < length (rows (canonical d y))"
    using assms(2) by (simp add: length_rows_canonical)
  from block_absent [OF assms(1,3,4) this] show ?thesis .
qed

text \<open>
  C6. When \<^verbatim>\<open>load_data\<close> returns, with \<open>s\<close> the 2024 frame after margin sanitation:
  the labels of the table are those of the three canonical frames together; its rows
  are those of 2014, then those of 2019, then those of 2024, as many as the frames
  have and in their order; row \<open>j\<close> of a frame reads under every label what the source
  row reads under the cleaned and mapped label (and its year under \<^verbatim>\<open>year\<close>), so the
  data of a column that only some frames have is kept; under a label that its frame
  lacks a row holds the missing value, neither zero nor the empty string. The table is
  rectangular. Its labels are pairwise different, or else they are the labels of all
  three frames and the rows are stacked unchanged.
\<close>

theorem union_concatenation:
  assumes "rectangular a" and "rectangular b" and "rectangular c"
    and "load_data numeric a b c = Inr u"
  shows "\<exists>s. sanitize_margin numeric c = Inr s
    \<and> set (columns u) = set (columns (canonical a 2014)) \<union> set (columns (canonical b 2019))
        \<union> set (columns (canonical s 2024))
    \<and> length (rows u) = length (rows a) + length (rows b) + length (rows s)
    \<and> rectangular u
    \<and> (\<forall>j < length (rows a). \<forall>l. cell_at (columns u) (rows u ! j) l =
          (if l = ''year'' then Num 2014
           else cell_at (map (\<lambda>x. semantic_name (clean_label x)) (columns a)) (rows a ! j) l))
    \<and> (\<forall>j < length (rows b). \<forall>l. cell_at (columns u) (rows u ! (length (rows a) + j)) l =
          (if l = ''year'' then Num 2019
           else cell_at (map (\<lambda>x. semantic_name (clean_label x)) (columns b)) (rows b ! j) l))
    \<and> (\<forall>j < length (rows s). \<forall>l.
          cell_at (columns u) (rows u ! (length (rows a) + length (rows b) + j)) l =
          (if l = ''year'' then Num 2024
           else cell_at (map (\<lambda>x. semantic_name (clean_label x)) (columns s)) (rows s ! j) l))
    \<and> (\<forall>j < length (rows a). \<forall>p < length (columns u).
          columns u ! p \<notin> set (columns (canonical a 2014)) \<longrightarrow> rows u ! j ! p = Null)
    \<and> (\<forall>j < length (rows b). \<forall>p < length (columns u).
          columns u ! p \<notin> set (columns (canonical b 2019)) \<longrightarrow>
            rows u ! (length (rows a) + j) ! p = Null)
    \<and> (\<forall>j < length (rows s). \<forall>p < length (columns u).
          columns u ! p \<notin> set (columns (canonical s 2024)) \<longrightarrow>
            rows u ! (length (rows a) + length (rows b) + j) ! p = Null)
    \<and> (distinct (columns u) \<or>
         (columns u = columns (canonical a 2014)
          \<and> rows u = rows (canonical a 2014) @ rows (canonical b 2019) @ rows (canonical s 2024)))"
proof -
  from load_data_blocks [OF assms] obtain s Ba Bb Bc where
    s: "sanitize_margin numeric c = Inr s" and rs: "rectangular s"
    and rows: "rows u = Ba @ Bb @ Bc"
    and ba: "block_of (canonical a 2014) (columns u) Ba"
    and bb: "block_of (canonical b 2019) (columns u) Bb"
    and bc: "block_of (canonical s 2024) (columns u) Bc"
    by blast
  have cc: "concat_frames [canonical a 2014, canonical b 2019, canonical s 2024] = Inr u"
    using assms(4) load_data_eq [OF s, of a b] by simp
  have la: "length Ba = length (rows a)"
    using block_length [OF ba] by (simp add: length_rows_canonical)
  have lb: "length Bb = length (rows b)"
    using block_length [OF bb] by (simp add: length_rows_canonical)
  have lc: "length Bc = length (rows s)"
    using block_length [OF bc] by (simp add: length_rows_canonical)
  have na: "rows u ! j = Ba ! j" if "j < length (rows a)" for j
    using that la by (simp add: rows nth_append)
  have nb: "rows u ! (length (rows a) + j) = Bb ! j" if "j < length (rows b)" for j
    using that la lb by (simp add: rows nth_append)
  have nc: "rows u ! (length (rows a) + length (rows b) + j) = Bc ! j"
    if "j < length (rows s)" for j
    using that la lb lc by (simp add: rows nth_append)
  have 1: "set (columns u) = set (columns (canonical a 2014)) \<union> set (columns (canonical b 2019))
        \<union> set (columns (canonical s 2024))"
    by (rule concat3_columns [OF cc])
  have 2: "length (rows u) = length (rows a) + length (rows b) + length (rows s)"
    by (simp add: rows la lb lc)
  have 3: "rectangular u"
  proof -
    have "length r = length (columns u)" if "r \<in> set (rows u)" for r
    proof -
      from that rows consider "r \<in> set Ba" | "r \<in> set Bb" | "r \<in> set Bc" by auto
      then show ?thesis
      proof cases
        case 1
        then obtain j where "j < length Ba" "r = Ba ! j" by (auto simp: in_set_conv_nth)
        with block_row_length [OF rectangular_canonical [OF assms(1)] ba, of j]
          block_length [OF ba] show ?thesis by simp
      next
        case 2
        then obtain j where "j < length Bb" "r = Bb ! j" by (auto simp: in_set_conv_nth)
        with block_row_length [OF rectangular_canonical [OF assms(2)] bb, of j]
          block_length [OF bb] show ?thesis by simp
      next
        case 3
        then obtain j where "j < length Bc" "r = Bc ! j" by (auto simp: in_set_conv_nth)
        with block_row_length [OF rectangular_canonical [OF rs] bc, of j]
          block_length [OF bc] show ?thesis by simp
      qed
    qed
    then show ?thesis by (simp add: rectangular_def list_all_iff)
  qed
  have 4: "\<forall>j < length (rows a). \<forall>l. cell_at (columns u) (rows u ! j) l =
          (if l = ''year'' then Num 2014
           else cell_at (map (\<lambda>x. semantic_name (clean_label x)) (columns a)) (rows a ! j) l)"
    using block_rows_read [OF assms(1) ba] na by simp
  have 5: "\<forall>j < length (rows b). \<forall>l. cell_at (columns u) (rows u ! (length (rows a) + j)) l =
          (if l = ''year'' then Num 2019
           else cell_at (map (\<lambda>x. semantic_name (clean_label x)) (columns b)) (rows b ! j) l)"
    using block_rows_read [OF assms(2) bb] nb by simp
  have 6: "\<forall>j < length (rows s). \<forall>l.
          cell_at (columns u) (rows u ! (length (rows a) + length (rows b) + j)) l =
          (if l = ''year'' then Num 2024
           else cell_at (map (\<lambda>x. semantic_name (clean_label x)) (columns s)) (rows s ! j) l)"
    using block_rows_read [OF rs bc] nc by simp
  have 7: "\<forall>j < length (rows a). \<forall>p < length (columns u).
          columns u ! p \<notin> set (columns (canonical a 2014)) \<longrightarrow> rows u ! j ! p = Null"
    using block_rows_absent [OF ba] na by simp
  have 8: "\<forall>j < length (rows b). \<forall>p < length (columns u).
          columns u ! p \<notin> set (columns (canonical b 2019)) \<longrightarrow>
            rows u ! (length (rows a) + j) ! p = Null"
    using block_rows_absent [OF bb] nb by simp
  have 9: "\<forall>j < length (rows s). \<forall>p < length (columns u).
          columns u ! p \<notin> set (columns (canonical s 2024)) \<longrightarrow>
            rows u ! (length (rows a) + length (rows b) + j) ! p = Null"
    using block_rows_absent [OF bc] nc by simp
  have 10: "distinct (columns u) \<or>
         (columns u = columns (canonical a 2014)
          \<and> rows u = rows (canonical a 2014) @ rows (canonical b 2019) @ rows (canonical s 2024))"
    by (rule concat3_shape [OF cc])
  from s 1 2 3 4 5 6 7 8 9 10 show ?thesis by blast
qed

lemma scenario_sanitize: "sanitize_margin parse_number scen24 = Inr scen24_kept"
  by code_simp

theorem union_concatenation_witness:
  "length (rows scen_union) = length (rows scen14) + length (rows scen19) + length (rows scen24_kept)
   \<and> rectangular scen_union
   \<and> cell_at (columns scen_union) (rows scen_union ! 3) ''margin'' = Num 10000
   \<and> rows scen_union ! 0 ! 4 = Null"
proof -
  have r: "rectangular scen14" "rectangular scen19" "rectangular scen24"
    using scenario_csv by (simp_all add: csv_frame_def)
  from union_concatenation [OF r scenario_load] obtain s where
    s: "sanitize_margin parse_number scen24 = Inr s"
    and len: "length (rows scen_union) = length (rows scen14) + length (rows scen19) + length (rows s)"
    and rect: "rectangular scen_union"
    and rd: "\<forall>j < length (rows s). \<forall>l.
          cell_at (columns scen_union)
            (rows scen_union ! (length (rows scen14) + length (rows scen19) + j)) l =
          (if l = ''year'' then Num 2024
           else cell_at (map (\<lambda>x. semantic_name (clean_label x)) (columns s)) (rows s ! j) l)"
    and ab: "\<forall>j < length (rows scen14). \<forall>p < length (columns scen_union).
          columns scen_union ! p \<notin> set (columns (canonical scen14 2014)) \<longrightarrow>
            rows scen_union ! j ! p = Null"
    by blast
  have eq: "s = scen24_kept" using s scenario_sanitize by simp
  have three: "length (rows scen14) + length (rows scen19) + 0 = 3"
    by (simp add: scen14_def scen19_def)
  have j0: "0 < length (rows scen24_kept)" by (simp add: scen24_kept_def)
  have val: "cell_at (map (\<lambda>x. semantic_name (clean_label x)) (columns scen24_kept))
      (rows scen24_kept ! 0) ''margin'' = Num 10000"
    by code_simp
  have ne: "''margin'' \<noteq> ''year''" by simp
  have "cell_at (columns scen_union)
      (rows scen_union ! (length (rows scen14) + length (rows scen19) + 0)) ''margin'' =
      cell_at (map (\<lambda>x. semantic_name (clean_label x)) (columns scen24_kept))
        (rows scen24_kept ! 0) ''margin''"
    using rd [unfolded eq, rule_format, OF j0, of "''margin''"] ne by (simp only: if_False)
  then have c3: "cell_at (columns scen_union) (rows scen_union ! 3) ''margin'' = Num 10000"
    by (simp only: three val)
  have notin: "columns scen_union ! 4 \<notin> set (columns (canonical scen14 2014))"
    by code_simp
  have "0 < length (rows scen14)" "4 < length (columns scen_union)"
    by (simp_all add: scen14_def scen_union_def)
  with ab [rule_format, of 0 4] notin have c4: "rows scen_union ! 0 ! 4 = Null" by simp
  from len [unfolded eq] rect c3 c4 show ?thesis by (intro conjI)
qed

section \<open>Columns outside the synonym table\<close>

lemma block_column_kept:
  assumes "rectangular d" and "block_of (canonical d y) N B" and "i < length (columns d)"
    and "semantic_name (clean_label (columns d ! i)) \<noteq> ''year''"
  shows "\<exists>p < length N. N ! p = semantic_name (clean_label (columns d ! i))
      \<and> (\<forall>j < length (rows d). B ! j ! p = rows d ! j ! i)"
proof -
  let ?m = "map_semantic (normalize d)"
  let ?t = "canonical d y"
  have rm: "rectangular ?m"
    using assms(1) by (simp add: rectangular_map_semantic rectangular_normalize)
  have cm: "columns ?m ! i = semantic_name (clean_label (columns d ! i))"
    using assms(3) by (simp add: columns_map_semantic columns_normalize)
  have im: "i < length (columns ?m)"
    using assms(3) by (simp add: columns_map_semantic columns_normalize)
  have ny: "columns ?m ! i \<noteq> ''year''" using assms(4) cm by simp
  have lt: "length (columns ?m) \<le> length (columns ?t)"
    by (simp add: canonical_def columns_set_year)
  have it: "i < length (columns ?t)" using im lt by simp
  have cell: "rows ?t ! j ! i = rows d ! j ! i \<and> columns ?t ! i = columns ?m ! i"
    if "j < length (rows d)" for j
  proof -
    have "j < length (rows ?m)" using that by (simp add: rows_map_semantic rows_normalize)
    from set_year_other_cells [OF rm this im ny, of y] show ?thesis
      by (simp add: canonical_def rows_map_semantic rows_normalize)
  qed
  have ct: "columns ?t ! i = columns ?m ! i"
    using im ny by (simp add: canonical_def columns_set_year nth_append)
  from block_position [OF rectangular_canonical [OF assms(1)] assms(2) it]
  obtain p where p: "p < length N" "N ! p = columns ?t ! i"
    and all: "\<forall>j < length (rows ?t). B ! j ! p = rows ?t ! j ! i"
    by blast
  have "B ! j ! p = rows d ! j ! i" if "j < length (rows d)" for j
    using all that cell [OF that] by (simp add: length_rows_canonical)
  with p ct cm show ?thesis by auto
qed

lemma sanitize_other_cells:
  assumes "rectangular c" and "sanitize_margin numeric c = Inr s"
    and "i < length (columns c)" and "columns c ! i \<noteq> ''Margin''"
    and "j < length (kept numeric c)"
  shows "rows s ! j ! i = kept numeric c ! j ! i"
proof (cases "''Margin'' \<in> set (columns c)")
  case False
  then show ?thesis
    using sanitize_rows_kept [OF assms(1,2)] by (simp add: kept_def)
next
  case True
  have "kept numeric c ! j \<in> set (rows c)"
    using assms(5) kept_subset [of numeric c] by (meson nth_mem subsetD)
  then have len: "length (kept numeric c ! j) = length (columns c)"
    using assms(1) by (simp add: rectangularD)
  have "rows s ! j = coerce_margin numeric (columns c) (kept numeric c ! j)"
    using True assms(5) sanitize_rows_kept [OF assms(1,2)] by simp
  then show ?thesis
    using coerce_margin_nth [OF len assms(3), of numeric] assms(4) by simp
qed

lemma clean_label_Margin: "clean_label ''Margin'' = ''margin''"
  by code_simp

lemma unmapped_not_Margin: "clean_label x \<notin> set synonyms \<Longrightarrow> x \<noteq> ''Margin''"
  using clean_label_Margin by (auto simp: synonyms_def)

lemma semantic_table:
  "semantic_name ''state'' = ''state'' \<and> semantic_name ''state_name'' = ''state''
   \<and> semantic_name ''party'' = ''party'' \<and> semantic_name ''party_name'' = ''party''
   \<and> semantic_name ''votes'' = ''votes'' \<and> semantic_name ''total_votes'' = ''votes''
   \<and> semantic_name ''valid_votes'' = ''votes''
   \<and> semantic_name ''margin'' = ''margin'' \<and> semantic_name ''vote_margin'' = ''margin''
   \<and> semantic_name ''winning_margin'' = ''margin''"
  by (simp add: semantic_name_def)

text \<open>
  C4, as amended. Semantic mapping renames the labels by the synonym table, position
  by position, and touches no row: the ten synonyms go to \<^verbatim>\<open>state\<close>, \<^verbatim>\<open>party\<close>,
  \<^verbatim>\<open>votes\<close>, \<^verbatim>\<open>margin\<close> (so \<^verbatim>\<open>valid_votes\<close> and \<^verbatim>\<open>total_votes\<close> both give \<^verbatim>\<open>votes\<close>),
  and every other label is kept. When \<^verbatim>\<open>load_data\<close> returns, a column of a file whose
  cleaned label is outside the synonym table and is not \<^verbatim>\<open>year\<close> is a column of the
  table under that cleaned label, holding in the rows of that file the very cells of the
  file (for 2024: of the rows that margin sanitation keeps).
\<close>

theorem semantic_mapping:
  assumes "rectangular a" and "rectangular b" and "rectangular c"
    and "load_data numeric a b c = Inr u"
  shows "semantic_name ''state'' = ''state'' \<and> semantic_name ''state_name'' = ''state''
    \<and> semantic_name ''party'' = ''party'' \<and> semantic_name ''party_name'' = ''party''
    \<and> semantic_name ''votes'' = ''votes'' \<and> semantic_name ''total_votes'' = ''votes''
    \<and> semantic_name ''valid_votes'' = ''votes''
    \<and> semantic_name ''margin'' = ''margin'' \<and> semantic_name ''vote_margin'' = ''margin''
    \<and> semantic_name ''winning_margin'' = ''margin''
    \<and> (\<forall>x. x \<notin> set synonyms \<longrightarrow> semantic_name x = x)
    \<and> columns (map_semantic df) = map semantic_name (columns df)
    \<and> rows (map_semantic df) = rows df
    \<and> (\<forall>i < length (columns a).
          clean_label (columns a ! i) \<notin> set synonyms \<and> clean_label (columns a ! i) \<noteq> ''year'' \<longrightarrow>
          (\<exists>p < length (columns u). columns u ! p = clean_label (columns a ! i)
             \<and> (\<forall>j < length (rows a). rows u ! j ! p = rows a ! j ! i)))
    \<and> (\<forall>i < length (columns b).
          clean_label (columns b ! i) \<notin> set synonyms \<and> clean_label (columns b ! i) \<noteq> ''year'' \<longrightarrow>
          (\<exists>p < length (columns u). columns u ! p = clean_label (columns b ! i)
             \<and> (\<forall>j < length (rows b). rows u ! (length (rows a) + j) ! p = rows b ! j ! i)))
    \<and> (\<forall>i < length (columns c).
          clean_label (columns c ! i) \<notin> set synonyms \<and> clean_label (columns c ! i) \<noteq> ''year'' \<longrightarrow>
          (\<exists>p < length (columns u). columns u ! p = clean_label (columns c ! i)
             \<and> (\<forall>j < length (kept numeric c).
                   rows u ! (length (rows a) + length (rows b) + j) ! p = kept numeric c ! j ! i)))
    \<and> length (rows u) = length (rows a) + length (rows b) + length (kept numeric c)"
proof -
  from load_data_blocks [OF assms] obtain s Ba Bb Bc where
    s: "sanitize_margin numeric c = Inr s" and rs: "rectangular s"
    and rows: "rows u = Ba @ Bb @ Bc"
    and ba: "block_of (canonical a 2014) (columns u) Ba"
    and bb: "block_of (canonical b 2019) (columns u) Bb"
    and bc: "block_of (canonical s 2024) (columns u) Bc"
    by blast
  have la: "length Ba = length (rows a)"
    using block_length [OF ba] by (simp add: length_rows_canonical)
  have lb: "length Bb = length (rows b)"
    using block_length [OF bb] by (simp add: length_rows_canonical)
  have ls: "length (rows s) = length (kept numeric c)"
    by (rule sanitize_length [OF assms(3) s])
  have lc: "length Bc = length (kept numeric c)"
    using block_length [OF bc] ls by (simp add: length_rows_canonical)
  have na: "rows u ! j = Ba ! j" if "j < length (rows a)" for j
    using that la by (simp add: rows nth_append)
  have nb: "rows u ! (length (rows a) + j) = Bb ! j" if "j < length (rows b)" for j
    using that la lb by (simp add: rows nth_append)
  have nc: "rows u ! (length (rows a) + length (rows b) + j) = Bc ! j"
    if "j < length (kept numeric c)" for j
    using that la lb lc by (simp add: rows nth_append)
  have fixed: "\<forall>x. x \<notin> set synonyms \<longrightarrow> semantic_name x = x"
    by (simp add: semantic_name_fixed)
  have A: "\<exists>p < length (columns u). columns u ! p = clean_label (columns a ! i)
             \<and> (\<forall>j < length (rows a). rows u ! j ! p = rows a ! j ! i)"
    if "i < length (columns a)" "clean_label (columns a ! i) \<notin> set synonyms"
      "clean_label (columns a ! i) \<noteq> ''year''" for i
  proof -
    have sn: "semantic_name (clean_label (columns a ! i)) = clean_label (columns a ! i)"
      using that(2) by (rule semantic_name_fixed)
    from block_column_kept [OF assms(1) ba that(1)] that(3) sn na show ?thesis by simp
  qed
  have B: "\<exists>p < length (columns u). columns u ! p = clean_label (columns b ! i)
             \<and> (\<forall>j < length (rows b). rows u ! (length (rows a) + j) ! p = rows b ! j ! i)"
    if "i < length (columns b)" "clean_label (columns b ! i) \<notin> set synonyms"
      "clean_label (columns b ! i) \<noteq> ''year''" for i
  proof -
    have sn: "semantic_name (clean_label (columns b ! i)) = clean_label (columns b ! i)"
      using that(2) by (rule semantic_name_fixed)
    from block_column_kept [OF assms(2) bb that(1)] that(3) sn nb show ?thesis by simp
  qed
  have C: "\<exists>p < length (columns u). columns u ! p = clean_label (columns c ! i)
             \<and> (\<forall>j < length (kept numeric c).
                   rows u ! (length (rows a) + length (rows b) + j) ! p = kept numeric c ! j ! i)"
    if "i < length (columns c)" "clean_label (columns c ! i) \<notin> set synonyms"
      "clean_label (columns c ! i) \<noteq> ''year''" for i
  proof -
    have cs: "columns s = columns c" by (rule sanitize_columns [OF s])
    have sn: "semantic_name (clean_label (columns s ! i)) = clean_label (columns c ! i)"
      using that(2) by (simp add: cs semantic_name_fixed)
    have nm: "columns c ! i \<noteq> ''Margin''"
      using that(2) by (rule unmapped_not_Margin)
    have i': "i < length (columns s)" using that(1) by (simp add: cs)
    have ny: "semantic_name (clean_label (columns s ! i)) \<noteq> ''year''"
      using sn that(3) by simp
    from block_column_kept [OF rs bc i' ny] obtain p where
      p: "p < length (columns u)" "columns u ! p = clean_label (columns c ! i)"
      and all: "\<forall>j < length (rows s). Bc ! j ! p = rows s ! j ! i"
      using sn by auto
    have "rows u ! (length (rows a) + length (rows b) + j) ! p = kept numeric c ! j ! i"
      if j: "j < length (kept numeric c)" for j
      using all j ls nc [OF j] sanitize_other_cells [OF assms(3) s \<open>i < length (columns c)\<close> nm j]
      by simp
    with p show ?thesis by blast
  qed
  have len: "length (rows u) = length (rows a) + length (rows b) + length (kept numeric c)"
    by (simp add: rows la lb lc)
  show ?thesis
    apply (intro conjI)
    using semantic_table apply blast+
    using fixed apply blast
    apply (rule columns_map_semantic)
    apply (rule rows_map_semantic)
    using A apply blast
    using B apply blast
    using C apply blast
    apply (rule len)
    done
qed

lemma extra_load: "load_data parse_number extra14 scen19 scen24 = Inr extra_union"
  by code_simp

theorem semantic_mapping_witness:
  "\<exists>p < length (columns extra_union). columns extra_union ! p = ''pc_name''
     \<and> rows extra_union ! 0 ! p = Str ''Panaji''"
proof -
  have r: "rectangular extra14" "rectangular scen19" "rectangular scen24"
    using scenario_csv by (simp_all add: csv_frame_def rectangular_def extra14_def)
  note t = semantic_mapping [OF r extra_load, where df = extra14]
  have cl: "clean_label (columns extra14 ! 0) = ''pc_name''" by code_simp
  have i: "0 < length (columns extra14)" by (simp add: extra14_def)
  have out: "''pc_name'' \<notin> set synonyms \<and> ''pc_name'' \<noteq> ''year''"
    by (simp add: synonyms_def)
  from t have "\<forall>i < length (columns extra14).
          clean_label (columns extra14 ! i) \<notin> set synonyms
            \<and> clean_label (columns extra14 ! i) \<noteq> ''year'' \<longrightarrow>
          (\<exists>p < length (columns extra_union). columns extra_union ! p = clean_label (columns extra14 ! i)
             \<and> (\<forall>j < length (rows extra14). rows extra_union ! j ! p = rows extra14 ! j ! i))"
    by (elim conjE) assumption
  from this [rule_format, OF i] cl out obtain p where
    p: "p < length (columns extra_union)" "columns extra_union ! p = ''pc_name''"
    and all: "\<forall>j < length (rows extra14). rows extra_union ! j ! p = rows extra14 ! j ! 0"
    by auto
  have "rows extra14 ! 0 ! 0 = Str ''Panaji''" "0 < length (rows extra14)"
    by (simp_all add: extra14_def)
  with all have "rows extra_union ! 0 ! p = Str ''Panaji''" by simp
  with p show ?thesis by blast
qed

text \<open>
  C4 as stated fails for the label \<^verbatim>\<open>year\<close>: it is outside every synonym group and
  passes through the mapping unchanged, but line 72 overwrites its column, so the
  \<^verbatim>\<open>1999\<close> that the file holds is nowhere in the table.
\<close>

theorem unmapped_year_counterexample:
  "clean_label ''Year'' = ''year''
   \<and> ''year'' \<notin> set synonyms
   \<and> semantic_name ''year'' = ''year''
   \<and> load_data parse_number with_year with_year with_year = Inr with_year_union
   \<and> Num 1999 \<in> set (concat (rows with_year))
   \<and> Num 1999 \<notin> set (concat (rows with_year_union))"
proof -
  have "clean_label ''Year'' = ''year''" by code_simp
  moreover have "''year'' \<notin> set synonyms" by (simp add: synonyms_def)
  moreover have "semantic_name ''year'' = ''year''" by (simp add: semantic_name_def)
  moreover have "load_data parse_number with_year with_year with_year = Inr with_year_union"
    by code_simp
  moreover have "Num 1999 \<in> set (concat (rows with_year))" by (simp add: with_year_def)
  moreover have "Num 1999 \<notin> set (concat (rows with_year_union))"
    by (simp add: with_year_union_def)
  ultimately show ?thesis by blast
qed

section \<open>Margin sanitation in the loaded table\<close>

lemma margin_label: "semantic_name (clean_label ''Margin'') = ''margin''"
  by (simp add: clean_label_Margin semantic_name_def)

lemma sanitize_margin_cells:
  assumes "csv_frame c" and "sanitize_margin numeric c = Inr s"
    and "i < length (columns c)" and "columns c ! i = ''Margin''"
    and "j < length (kept numeric c)"
  shows "rows s ! j ! i = to_numeric numeric (cell_at (columns c) (kept numeric c ! j) ''Margin'')"
proof -
  have rect: "rectangular c" and dist: "distinct (columns c)"
    using assms(1) by (simp_all add: csv_frame_def)
  have mem: "''Margin'' \<in> set (columns c)"
    using assms(3,4) by (metis nth_mem)
  have "kept numeric c ! j \<in> set (rows c)"
    using assms(5) kept_subset [of numeric c] by (meson nth_mem subsetD)
  then have len: "length (kept numeric c ! j) = length (columns c)"
    using rect by (simp add: rectangularD)
  have "rows s ! j = coerce_margin numeric (columns c) (kept numeric c ! j)"
    using mem assms(5) sanitize_rows_kept [OF rect assms(2)] by simp
  then have "rows s ! j ! i = to_numeric numeric (kept numeric c ! j ! i)"
    using coerce_margin_nth [OF len assms(3), of numeric] assms(4) by simp
  also have "kept numeric c ! j ! i = cell_at (columns c) (kept numeric c ! j) ''Margin''"
    using cell_at_nth [OF dist len assms(3)] assms(4) by simp
  finally show ?thesis .
qed

lemma margin_example_text:
  "load_data parse_number margin_other margin_other margin_text24 = Inr margin_union"
  by code_simp

lemma margin_example_read:
  "load_data parse_number margin_other margin_other margin_read24 = Inr margin_union"
  by code_simp

text \<open>
  C2. When \<^verbatim>\<open>load_data\<close> returns on files as \<^verbatim>\<open>read_csv\<close> delivers them: all rows of
  the 2014 file and all rows of the 2019 file are in the table, whatever their cells
  hold. Of the 2024 file the table has the rows that are kept: all of them when no
  column is labelled \<^verbatim>\<open>Margin\<close> literally, otherwise exactly those whose \<^verbatim>\<open>Margin\<close>
  cell coerces to a number, in their order, and the table then has a \<^verbatim>\<open>margin\<close>
  column that holds in the 2024 rows those coerced numbers. The example rows
  \<^verbatim>\<open>10000\<close>, \<^verbatim>\<open>N/A\<close>, \<^verbatim>\<open>-500\<close> give the two 2024 rows with margins 10000 and -500,
  while the rows of 2014 and 2019 with a non-numeric or missing margin stay.
\<close>

theorem margin_sanitation:
  assumes "rectangular a" and "rectangular b" and "csv_frame c"
    and "load_data numeric a b c = Inr u"
  shows "length (rows (select_eq u ''year'' (Num 2014))) = length (rows a)
    \<and> length (rows (select_eq u ''year'' (Num 2019))) = length (rows b)
    \<and> length (rows (select_eq u ''year'' (Num 2024))) = length (kept numeric c)
    \<and> (''Margin'' \<notin> set (columns c) \<longrightarrow> kept numeric c = rows c)
    \<and> (''Margin'' \<in> set (columns c) \<longrightarrow>
          kept numeric c =
            filter (\<lambda>r. to_numeric numeric (cell_at (columns c) r ''Margin'') \<noteq> Null) (rows c)
          \<and> (\<exists>p < length (columns u). columns u ! p = ''margin''
               \<and> map (\<lambda>r. r ! p) (rows (select_eq u ''year'' (Num 2024))) =
                   map (\<lambda>r. to_numeric numeric (cell_at (columns c) r ''Margin'')) (kept numeric c)))
    \<and> load_data parse_number margin_other margin_other margin_text24 = Inr margin_union
    \<and> load_data parse_number margin_other margin_other margin_read24 = Inr margin_union
    \<and> rows (select_eq margin_union ''year'' (Num 2024)) = [[Num 10000, Num 2024], [Num (- 500), Num 2024]]"
proof -
  have rc: "rectangular c" using assms(3) by (simp add: csv_frame_def)
  from load_data_blocks [OF assms(1,2) rc assms(4)] obtain s Ba Bb Bc where
    s: "sanitize_margin numeric c = Inr s" and rs: "rectangular s"
    and ba: "block_of (canonical a 2014) (columns u) Ba"
    and bb: "block_of (canonical b 2019) (columns u) Bb"
    and bc: "block_of (canonical s 2024) (columns u) Bc"
    and sel: "rows (select_eq u ''year'' (Num 2014)) = Ba"
      "rows (select_eq u ''year'' (Num 2019)) = Bb"
      "rows (select_eq u ''year'' (Num 2024)) = Bc"
    by blast
  have ls: "length (rows s) = length (kept numeric c)"
    by (rule sanitize_length [OF rc s])
  have 1: "length (rows (select_eq u ''year'' (Num 2014))) = length (rows a)"
    using block_length [OF ba] by (simp add: sel length_rows_canonical)
  have 2: "length (rows (select_eq u ''year'' (Num 2019))) = length (rows b)"
    using block_length [OF bb] by (simp add: sel length_rows_canonical)
  have lc: "length Bc = length (kept numeric c)"
    using block_length [OF bc] ls by (simp add: length_rows_canonical)
  have 3: "length (rows (select_eq u ''year'' (Num 2024))) = length (kept numeric c)"
    using lc by (simp add: sel)
  have 4: "''Margin'' \<notin> set (columns c) \<longrightarrow> kept numeric c = rows c"
    by (simp add: kept_def)
  have 5: "kept numeric c =
            filter (\<lambda>r. to_numeric numeric (cell_at (columns c) r ''Margin'') \<noteq> Null) (rows c)
          \<and> (\<exists>p < length (columns u). columns u ! p = ''margin''
               \<and> map (\<lambda>r. r ! p) (rows (select_eq u ''year'' (Num 2024))) =
                   map (\<lambda>r. to_numeric numeric (cell_at (columns c) r ''Margin'')) (kept numeric c))"
    if mem: "''Margin'' \<in> set (columns c)"
  proof -
    from mem obtain i where i: "i < length (columns c)" "columns c ! i = ''Margin''"
      by (auto simp: in_set_conv_nth)
    have cs: "columns s = columns c" by (rule sanitize_columns [OF s])
    have i': "i < length (columns s)" using i(1) by (simp add: cs)
    have ny: "semantic_name (clean_label (columns s ! i)) \<noteq> ''year''"
      using i(2) by (simp add: cs margin_label)
    from block_column_kept [OF rs bc i' ny] obtain p where
      p: "p < length (columns u)" "columns u ! p = ''margin''"
      and all: "\<forall>j < length (rows s). Bc ! j ! p = rows s ! j ! i"
      using i(2) by (auto simp: cs margin_label)
    have "map (\<lambda>r. r ! p) Bc =
        map (\<lambda>r. to_numeric numeric (cell_at (columns c) r ''Margin'')) (kept numeric c)"
    proof (rule nth_equalityI)
      show "length (map (\<lambda>r. r ! p) Bc) =
          length (map (\<lambda>r. to_numeric numeric (cell_at (columns c) r ''Margin'')) (kept numeric c))"
        using lc by simp
    next
      fix j assume "j < length (map (\<lambda>r. r ! p) Bc)"
      then have j: "j < length (kept numeric c)" using lc by simp
      then have "Bc ! j ! p = rows s ! j ! i" using all ls by simp
      also have "\<dots> = to_numeric numeric (cell_at (columns c) (kept numeric c ! j) ''Margin'')"
        by (rule sanitize_margin_cells [OF assms(3) s i j])
      finally show "map (\<lambda>r. r ! p) Bc ! j =
          map (\<lambda>r. to_numeric numeric (cell_at (columns c) r ''Margin'')) (kept numeric c) ! j"
        using j lc by simp
    qed
    with p mem show ?thesis by (auto simp: sel kept_def)
  qed
  have 6: "rows (select_eq margin_union ''year'' (Num 2024)) =
      [[Num 10000, Num 2024], [Num (- 500), Num 2024]]"
    by code_simp
  from 1 2 3 4 5 6 margin_example_text margin_example_read show ?thesis by blast
qed

theorem margin_sanitation_witness:
  "length (rows (select_eq margin_union ''year'' (Num 2014))) = 2
   \<and> length (rows (select_eq margin_union ''year'' (Num 2019))) = 2
   \<and> length (rows (select_eq margin_union ''year'' (Num 2024))) = 2"
proof -
  have r: "rectangular margin_other"
    by (simp add: rectangular_def margin_other_def)
  have c: "csv_frame margin_text24"
    by (simp add: csv_frame_def rectangular_def margin_text24_def)
  note t = margin_sanitation [OF r r c margin_example_text]
  have k: "length (kept parse_number margin_text24) = 2" by code_simp
  have o: "length (rows margin_other) = 2" by (simp add: margin_other_def)
  from t have "length (rows (select_eq margin_union ''year'' (Num 2014))) = length (rows margin_other)"
    by (elim conjE) assumption
  moreover from t
  have "length (rows (select_eq margin_union ''year'' (Num 2019))) = length (rows margin_other)"
    by (elim conjE) assumption
  moreover from t
  have "length (rows (select_eq margin_union ''year'' (Num 2024))) = length (kept parse_number margin_text24)"
    by (elim conjE) assumption
  ultimately show ?thesis using k o by simp
qed

section \<open>The filtered view\<close>

lemma columns_select_eq: "columns (select_eq df l v) = columns df"
  by (simp add: select_eq_def)

lemma rows_select_eq:
  "rows (select_eq df l v) = filter (\<lambda>r. cell_eq (cell_at (columns df) r l) v) (rows df)"
  by (simp add: select_eq_def)

lemma select_eq_commute:
  "select_eq (select_eq df l v) k w = select_eq (select_eq df k w) l v"
proof -
  have "filter (\<lambda>r. cell_eq (cell_at (columns df) r k) w)
          (filter (\<lambda>r. cell_eq (cell_at (columns df) r l) v) (rows df))
      = filter (\<lambda>r. cell_eq (cell_at (columns df) r l) v)
          (filter (\<lambda>r. cell_eq (cell_at (columns df) r k) w) (rows df))"
    by (simp add: conj_commute)
  then show ?thesis by (simp add: select_eq_def)
qed

lemma cell_eq_Num: "cell_eq c (Num y) = (c = Num y)"
  by (auto simp: cell_eq_def)

lemma cell_eq_Str: "cell_eq c (Str x) = (c = Str x)"
  by (auto simp: cell_eq_def)

lemma sidebar_filter_All: "sidebar_filter f l (Str ''All'') = Inr g \<Longrightarrow> g = f"
  by (auto simp: sidebar_filter_def split: if_splits option.splits)

lemma sidebar_filter_choice:
  "sidebar_filter f l (Str x) = Inr g \<Longrightarrow> has f l \<Longrightarrow> x \<noteq> ''All'' \<Longrightarrow> g = select_eq f l (Str x)"
  by (auto simp: sidebar_filter_def split: if_splits option.splits)

text \<open>
  C7. When the script's filters return a view for the year \<open>y\<close> (2019 in the claim),
  a state \<open>X\<close> other than the wildcard, and the party choice \<^verbatim>\<open>All\<close>, on a table that
  has the field \<^verbatim>\<open>state\<close>: the view has the labels of the table and exactly its rows
  whose year is \<open>y\<close> and whose state is \<open>X\<close>, in their order; the party choice filters
  nothing; and filtering by state first and by year second gives the same view.
\<close>

theorem filter_cascading:
  assumes "filtered_view df (Num y) (Str X) (Str ''All'') = Inr v"
    and "has df ''state''" and "X \<noteq> ''All''"
  shows "columns v = columns df
    \<and> rows v = filter (\<lambda>r. cell_at (columns df) r ''year'' = Num y
                        \<and> cell_at (columns df) r ''state'' = Str X) (rows df)
    \<and> v = select_eq (select_eq df ''year'' (Num y)) ''state'' (Str X)
    \<and> v = select_eq (select_eq df ''state'' (Str X)) ''year'' (Num y)"
proof -
  from assms(1) obtain f where
    f: "sidebar_filter (select_eq df ''year'' (Num y)) ''state'' (Str X) = Inr f"
    and v: "sidebar_filter f ''party'' (Str ''All'') = Inr v"
    by (auto simp: filtered_view_def split: option.splits sum.splits)
  have "has (select_eq df ''year'' (Num y)) ''state''"
    using assms(2) by (simp add: has_select_eq)
  from sidebar_filter_choice [OF f this assms(3)]
  have f_eq: "f = select_eq (select_eq df ''year'' (Num y)) ''state'' (Str X)" .
  from sidebar_filter_All [OF v] f_eq
  have 3: "v = select_eq (select_eq df ''year'' (Num y)) ''state'' (Str X)" by simp
  have 4: "v = select_eq (select_eq df ''state'' (Str X)) ''year'' (Num y)"
    using 3 by (simp only: select_eq_commute)
  have 1: "columns v = columns df"
    by (simp add: 3 columns_select_eq)
  have 2: "rows v = filter (\<lambda>r. cell_at (columns df) r ''year'' = Num y
                        \<and> cell_at (columns df) r ''state'' = Str X) (rows df)"
    by (simp add: 3 rows_select_eq columns_select_eq cell_eq_Num cell_eq_Str conj_commute)
  from 1 2 3 4 show ?thesis by blast
qed

theorem filter_cascading_witness:
  "filtered_view scen_union (Num 2019) (Str ''Goa'') (Str ''All'')
     = Inr (scen_union\<lparr>rows := [[Str ''Goa'', Str ''BJP'', Num 300, Num 2019, Null]]\<rparr>)
   \<and> select_eq (select_eq scen_union ''state'' (Str ''Goa'')) ''year'' (Num 2019)
     = scen_union\<lparr>rows := [[Str ''Goa'', Str ''BJP'', Num 300, Num 2019, Null]]\<rparr>"
proof -
  let ?v = "scen_union\<lparr>rows := [[Str ''Goa'', Str ''BJP'', Num 300, Num 2019, Null]]\<rparr>"
  have e: "filtered_view scen_union (Num 2019) (Str ''Goa'') (Str ''All'') = Inr ?v"
    by code_simp
  have h: "has scen_union ''state''" by (simp add: has_def scen_union_def)
  have n: "''Goa'' \<noteq> ''All''" by simp
  from filter_cascading [OF e h n]
  have "?v = select_eq (select_eq scen_union ''state'' (Str ''Goa'')) ''year'' (Num 2019)"
    by (elim conjE) assumption
  with e show ?thesis by simp
qed

section \<open>The averages\<close>

lemma getitem_absent: "l \<notin> set (columns f) \<Longrightarrow> getitem f l = Inl KeyError"
  by (simp add: getitem_def)

lemma getitem_single:
  "l \<in> set (columns f) \<Longrightarrow> count_list (columns f) l \<le> 1 \<Longrightarrow> getitem f l = Inr (Series (series f l))"
  by (simp add: getitem_def)

lemma numbers_dropna: "numbers (dropna cs) = numbers cs"
  by (induction cs) (simp_all add: numbers_def dropna_def)

lemma numbers_to_numeric:
  "numbers (map (to_numeric numeric) cs) =
     concat (map (\<lambda>c. case c of
                   Null \<Rightarrow> []
                 | Str s \<Rightarrow> (case numeric s of Some n \<Rightarrow> [n] | None \<Rightarrow> [])
                 | Num q \<Rightarrow> [Finite q]
                 | PosInf \<Rightarrow> [PlusInfinity]
                 | NegInf \<Rightarrow> [MinusInfinity]) cs)"
  by (induction cs)
    (auto simp: numbers_def to_numeric_def cell_of_def
      split: cell.splits option.splits number.splits)

text \<open>\<^verbatim>\<open>int\<close> on a finite number: the integer next to it towards zero.\<close>

lemma int_of_truncates:
  "int_of (Finite q) = Inr (if 0 \<le> q then \<lfloor>q\<rfloor> else \<lceil>q\<rceil>)
   \<and> (0 \<le> q \<longrightarrow> of_int \<lfloor>q\<rfloor> \<le> q \<and> q < of_int \<lfloor>q\<rfloor> + 1 \<and> 0 \<le> \<lfloor>q\<rfloor>)
   \<and> (q < 0 \<longrightarrow> q \<le> of_int \<lceil>q\<rceil> \<and> of_int \<lceil>q\<rceil> < q + 1 \<and> \<lceil>q\<rceil> \<le> 0)"
proof -
  have 1: "int_of (Finite q) = Inr (if 0 \<le> q then \<lfloor>q\<rfloor> else \<lceil>q\<rceil>)"
    by (simp add: int_of_def)
  have 2: "of_int \<lfloor>q\<rfloor> \<le> q \<and> q < of_int \<lfloor>q\<rfloor> + 1 \<and> 0 \<le> \<lfloor>q\<rfloor>" if "0 \<le> q"
  proof -
    have "of_int \<lfloor>q\<rfloor> \<le> q" by (rule of_int_floor_le)
    moreover have "q < of_int \<lfloor>q\<rfloor> + 1" using floor_correct [of q] by simp
    moreover have "0 \<le> \<lfloor>q\<rfloor>" using that by simp
    ultimately show ?thesis by blast
  qed
  have 3: "q \<le> of_int \<lceil>q\<rceil> \<and> of_int \<lceil>q\<rceil> < q + 1 \<and> \<lceil>q\<rceil> \<le> 0" if "q < 0"
  proof -
    have "q \<le> of_int \<lceil>q\<rceil>" by (rule le_of_int_ceiling)
    moreover have "of_int \<lceil>q\<rceil> < q + 1" using ceiling_correct [of q] by simp
    moreover have "\<lceil>q\<rceil> \<le> 0" using that by simp
    ultimately show ?thesis by blast
  qed
  from 1 2 3 show ?thesis by blast
qed

lemma int_of_examples:
  "int_of (Finite (7 / 2)) = Inr 3 \<and> int_of (Finite (- 7 / 2)) = Inr (- 3)
   \<and> int_of PlusInfinity = Inl OverflowError \<and> int_of MinusInfinity = Inl OverflowError"
  by code_simp

text \<open>
  What the average does in general. A field that no column carries gives N/A, without
  a read of the column. A field that several columns carry makes \<^verbatim>\<open>pd.to_numeric\<close>
  raise. For a field that one column carries, the values averaged are the numbers of
  the column and the numbers that its strings denote; a missing cell and a string that
  denotes no number contribute nothing. When no value is left the result is N/A; when
  all values are finite it is their mean cut towards zero; when an infinity is among
  them and the mean is not NaN, \<^verbatim>\<open>int\<close> raises.
\<close>

lemma avg_metric_absent: "\<not> has f l \<Longrightarrow> avg_metric numeric f l = Inr NA"
  by (simp add: avg_metric_def)

lemma avg_metric_repeated:
  "1 < count_list (columns f) l \<Longrightarrow> avg_metric numeric f l = Inl TypeError"
proof -
  assume c: "1 < count_list (columns f) l"
  then have "l \<in> set (columns f)"
    using count_list_0_iff [of "columns f" l] by auto
  with c show ?thesis
    by (simp add: avg_metric_def has_def getitem_def)
qed

lemma avg_metric_single:
  assumes "has f l" and "count_list (columns f) l \<le> 1"
  shows "avg_metric numeric f l =
     (case mean (numbers (map (to_numeric numeric) (series f l))) of
        None \<Rightarrow> Inr NA
      | Some (Finite q) \<Rightarrow> Inr (Value (if 0 \<le> q then \<lfloor>q\<rfloor> else \<lceil>q\<rceil>))
      | Some PlusInfinity \<Rightarrow> Inl OverflowError
      | Some MinusInfinity \<Rightarrow> Inl OverflowError)"
proof -
  from assms have "getitem f l = Inr (Series (series f l))"
    by (simp add: has_def getitem_single)
  with assms(1) show ?thesis
    by (simp add: avg_metric_def Let_def numbers_dropna int_of_def
        split: option.splits number.splits)
qed

lemma mean_finite:
  assumes "PlusInfinity \<notin> set ns" and "MinusInfinity \<notin> set ns"
  shows "mean ns =
     (if ns = [] then None else Some (Finite (sum_list (map finite_part ns) / of_nat (length ns))))"
  using assms by (simp add: mean_def)

lemma avg_metric_finite:
  assumes "has f l" and "count_list (columns f) l \<le> 1"
    and "PlusInfinity \<notin> set (numbers (map (to_numeric numeric) (series f l)))"
    and "MinusInfinity \<notin> set (numbers (map (to_numeric numeric) (series f l)))"
  shows "\<exists>m. avg_metric numeric f l = Inr m
     \<and> (m = NA) = (numbers (map (to_numeric numeric) (series f l)) = [])"
  using assms(3,4)
  by (simp add: avg_metric_single [OF assms(1,2)] mean_finite)

lemma average_examples:
  "avg_metric parse_number (select_eq scen_union ''year'' (Num 2014)) ''votes'' = Inr (Value 100)
   \<and> avg_metric parse_number (select_eq scen_union ''year'' (Num 2024)) ''votes'' = Inr NA
   \<and> avg_metric parse_number (select_eq scen_union ''year'' (Num 2024)) ''margin'' = Inr (Value 4750)
   \<and> avg_metric parse_number (select_eq with_year_union ''year'' (Num 2014)) ''votes'' = Inr NA"
  by code_simp

text \<open>
  C8 fails on the code. The 2014 file with the rows \<^verbatim>\<open>Goa,INC,100\<close> and \<^verbatim>\<open>Goa,BJP,inf\<close>
  under the header \<^verbatim>\<open>State,Party,Votes\<close> is well-formed. For the year 2014 the numeric
  votes are 100 and infinity, their mean is infinity, which \<^verbatim>\<open>pd.notna\<close> accepts, and
  \<^verbatim>\<open>int(avg_votes)\<close> at line 132 raises \<^verbatim>\<open>OverflowError\<close>. The same happens when the
  column holds the strings \<^verbatim>\<open>withheld\<close> and \<^verbatim>\<open>inf\<close>: \<^verbatim>\<open>pd.to_numeric\<close> coerces the first
  to a missing value and reads the second as infinity.
\<close>

theorem average_of_infinite_votes:
  "csv_frame inf14
   \<and> load_data parse_number inf14 scen19 scen24 = Inr inf_union
   \<and> filtered_view inf_union (Num 2014) (Str ''All'') (Str ''All'')
       = Inr (select_eq inf_union ''year'' (Num 2014))
   \<and> avg_metric parse_number (select_eq inf_union ''year'' (Num 2014)) ''votes'' = Inl OverflowError
   \<and> csv_frame inf_text14
   \<and> load_data parse_number inf_text14 scen19 scen24 = Inr inf_text_union
   \<and> filtered_view inf_text_union (Num 2014) (Str ''All'') (Str ''All'')
       = Inr (select_eq inf_text_union ''year'' (Num 2014))
   \<and> avg_metric parse_number (select_eq inf_text_union ''year'' (Num 2014)) ''votes''
       = Inl OverflowError"
proof -
  have 1: "csv_frame inf14"
    by (simp add: csv_frame_def rectangular_def inf14_def)
  have 2: "load_data parse_number inf14 scen19 scen24 = Inr inf_union"
    by code_simp
  have 3: "filtered_view inf_union (Num 2014) (Str ''All'') (Str ''All'')
       = Inr (select_eq inf_union ''year'' (Num 2014))"
    by code_simp
  have 4: "avg_metric parse_number (select_eq inf_union ''year'' (Num 2014)) ''votes''
       = Inl OverflowError"
    by code_simp
  have 5: "csv_frame inf_text14"
    by (simp add: csv_frame_def rectangular_def inf_text14_def)
  have 6: "load_data parse_number inf_text14 scen19 scen24 = Inr inf_text_union"
    by code_simp
  have 7: "filtered_view inf_text_union (Num 2014) (Str ''All'') (Str ''All'')
       = Inr (select_eq inf_text_union ''year'' (Num 2014))"
    by code_simp
  have 8: "avg_metric parse_number (select_eq inf_text_union ''year'' (Num 2014)) ''votes''
       = Inl OverflowError"
    by code_simp
  from 1 2 3 4 5 6 7 8 show ?thesis by blast
qed

section \<open>Colliding labels\<close>

lemma load_data_total:
  assumes "csv_frame a" and "csv_frame b" and "csv_frame c"
    and "distinct (columns (canonical a 2014))" and "distinct (columns (canonical b 2019))"
    and "distinct (columns (canonical c 2024))"
  shows "\<exists>u. load_data numeric a b c = Inr u"
proof -
  from sanitize_csv [OF assms(3)] obtain s where s: "sanitize_margin numeric c = Inr s"
    by blast
  have "distinct (columns (canonical s 2024))"
    using assms(6) by (simp add: columns_canonical_sanitize [OF s])
  with assms(4,5) have "\<exists>u. concat_frames [canonical a 2014, canonical b 2019, canonical s 2024] = Inr u"
    by (simp add: concat_frames_def Let_def)
  then show ?thesis by (simp add: load_data_eq [OF s])
qed

text \<open>
  C9 fails on the code. The 2014 file with the header \<^verbatim>\<open>State,State Name\<close> is well-formed;
  both labels are mapped to \<^verbatim>\<open>state\<close>, and \<^verbatim>\<open>pd.concat\<close>, which has to re-index the
  frame because the 2019 file carries other labels, raises \<^verbatim>\<open>InvalidIndexError\<close>.
\<close>

theorem load_data_colliding_labels:
  "load_data parse_number dup14 scen19 scen24 = Inl InvalidIndexError"
  by code_simp

end
